theory Spec2Isabelle
  imports Complex_Main "HOL-Library.AList"
begin

section \<open>Values\<close>

text \<open>
  The program is JavaScript over an SQLite store. One type of values serves both
  sides: what a request body or an options object holds, and what a column holds as the
  driver hands it back to JavaScript (\<open>NULL\<close> as \<open>null\<close>, an integer as a number, text
  as a string). Numbers are integers here: ids, counts, flags.
\<close>

datatype val = Undefined | JNull | JBool bool | JNum int | JStr string

text \<open>JavaScript truthiness, as used by \<^verbatim>\<open>if (x)\<close>, \<^verbatim>\<open>!x\<close>, \<^verbatim>\<open>a || b\<close> and \<^verbatim>\<open>a && b\<close>.\<close>

fun truthy :: "val \<Rightarrow> bool" where
  "truthy Undefined = False"
| "truthy JNull = False"
| "truthy (JBool b) = b"
| "truthy (JNum n) = (n \<noteq> 0)"
| "truthy (JStr s) = (s \<noteq> [])"

text \<open>
  Binding a JavaScript value as a statement parameter: \<open>undefined\<close> and \<open>null\<close> are
  stored as \<open>NULL\<close>, a boolean as 1 or 0. The store keeps the bound value as it is
  (the conversions of SQLite's column affinities are not part of the model).
\<close>

fun bind_param :: "val \<Rightarrow> val" where
  "bind_param Undefined = JNull"
| "bind_param (JBool b) = JNum (if b then 1 else 0)"
| "bind_param v = v"

text \<open>
  A JavaScript object with string keys: an association list in insertion order, read
  with \<open>map_of\<close>, an absent property reading \<open>undefined\<close>.
\<close>

type_synonym obj = "(string \<times> val) list"

definition getp :: "obj \<Rightarrow> string \<Rightarrow> val" where
  "getp ob k = (case map_of ob k of None \<Rightarrow> Undefined | Some v \<Rightarrow> v)"

section \<open>Strings and the slug generator\<close>

text \<open>
  Strings are lists of 8-bit characters, read as the code units 0 to 255 of a
  JavaScript string. \<open>isSpace\<close> is the class \<^verbatim>\<open>\s\<close> (also what \<^verbatim>\<open>trim\<close> removes),
  \<open>isWord\<close> is the class \<^verbatim>\<open>\w\<close>, both restricted to these code units.
\<close>

definition isUpper :: "char \<Rightarrow> bool" where
  "isUpper c = (let n = (of_char c :: nat) in
     (65 \<le> n \<and> n \<le> 90) \<or> (192 \<le> n \<and> n \<le> 222 \<and> n \<noteq> 215))"

definition toLowerChar :: "char \<Rightarrow> char" where
  "toLowerChar c = (if isUpper c then char_of (of_char c + (32::nat)) else c)"

definition toLowerCase :: "string \<Rightarrow> string" where
  "toLowerCase s = map toLowerChar s"

definition isSpace :: "char \<Rightarrow> bool" where
  "isSpace c = (of_char c \<in> {9::nat, 10, 11, 12, 13, 32, 160})"

definition isWord :: "char \<Rightarrow> bool" where
  "isWord c = (let n = (of_char c :: nat) in
     (48 \<le> n \<and> n \<le> 57) \<or> (65 \<le> n \<and> n \<le> 90) \<or> c = CHR ''_'' \<or> (97 \<le> n \<and> n \<le> 122))"

definition trim :: "string \<Rightarrow> string" where
  "trim s = rev (dropWhile isSpace (rev (dropWhile isSpace s)))"

text \<open>\<^verbatim>\<open>.replace(/[^\w\s-]/g, '')\<close>: every character outside the class is deleted.\<close>

definition removeSpecial :: "string \<Rightarrow> string" where
  "removeSpecial s = filter (\<lambda>c. isWord c \<or> isSpace c \<or> c = CHR ''-'') s"

text \<open>\<^verbatim>\<open>.replace(/[\s_-]+/g, '-')\<close>: every maximal run of separators becomes one hyphen.\<close>

definition isSep :: "char \<Rightarrow> bool" where
  "isSep c = (isSpace c \<or> c = CHR ''_'' \<or> c = CHR ''-'')"

function replaceRuns :: "string \<Rightarrow> string" where
  "replaceRuns [] = []"
| "replaceRuns (c # cs) =
     (if isSep c then CHR ''-'' # replaceRuns (dropWhile isSep cs) else c # replaceRuns cs)"
  by pat_completeness auto
termination
  by (relation "measure length") (auto simp: length_dropWhile_le less_Suc_eq_le)

text \<open>\<^verbatim>\<open>.replace(/^-+|-+$/g, '')\<close>: the hyphens at the start and at the end are deleted.\<close>

definition stripHyphens :: "string \<Rightarrow> string" where
  "stripHyphens s =
     rev (dropWhile (\<lambda>c. c = CHR ''-'') (rev (dropWhile (\<lambda>c. c = CHR ''-'') s)))"

text \<open>\<^verbatim>\<open>Category.generateSlug\<close> and \<^verbatim>\<open>News.generateSlug\<close> (the latter ends with
  \<^verbatim>\<open>.substring(0, 500)\<close>).\<close>

definition Category_generateSlug :: "string \<Rightarrow> string" where
  "Category_generateSlug text =
     stripHyphens (replaceRuns (removeSpecial (trim (toLowerCase text))))"

definition News_generateSlug :: "string \<Rightarrow> string" where
  "News_generateSlug title =
     take 500 (stripHyphens (replaceRuns (removeSpecial (trim (toLowerCase title)))))"

subsection \<open>The slug transform as the specification words it\<close>

text \<open>
  The specification's pipeline, step by step: lowercase; trim; strip all characters
  outside a-z, 0-9, whitespace and hyphen; collapse runs of whitespace, underscore and
  hyphen into a single hyphen; strip leading and trailing hyphens.
\<close>

definition isLowerAlnum :: "char \<Rightarrow> bool" where
  "isLowerAlnum c = (let n = (of_char c :: nat) in
     (97 \<le> n \<and> n \<le> 122) \<or> (48 \<le> n \<and> n \<le> 57))"

definition slugify_spec :: "string \<Rightarrow> string" where
  "slugify_spec text =
     stripHyphens (replaceRuns
       (filter (\<lambda>c. isLowerAlnum c \<or> isSpace c \<or> c = CHR ''-'') (trim (toLowerCase text))))"

text \<open>The same pipeline with the underscore added to the characters that are kept.\<close>

definition slugify_amended :: "string \<Rightarrow> string" where
  "slugify_amended text =
     stripHyphens (replaceRuns
       (filter (\<lambda>c. isLowerAlnum c \<or> c = CHR ''_'' \<or> isSpace c \<or> c = CHR ''-'')
          (trim (toLowerCase text))))"

section \<open>The store\<close>

text \<open>
  The three tables of \<^verbatim>\<open>createTables\<close>. A table is the list of its rows in rowid
  order; \<open>id\<close> is the integer primary key, every other column holds a value. The
  \<open>seq\<close> fields are the counters SQLite keeps for \<^verbatim>\<open>AUTOINCREMENT\<close>.
\<close>

record user_row =
  u_id :: int
  u_username :: val
  u_email :: val
  u_password :: val
  u_first_name :: val
  u_last_name :: val
  u_role :: val
  u_is_active :: val
  u_created_at :: val
  u_updated_at :: val

record category_row =
  c_id :: int
  c_name :: val
  c_description :: val
  c_slug :: val
  c_is_active :: val
  c_created_at :: val
  c_updated_at :: val

record news_row =
  n_id :: int
  n_title :: val
  n_content :: val
  n_summary :: val
  n_slug :: val
  n_featured_image :: val
  n_status :: val
  n_category_id :: val
  n_author_id :: val
  n_published_at :: val
  n_created_at :: val
  n_updated_at :: val

record db =
  users :: "user_row list"
  categories :: "category_row list"
  news :: "news_row list"
  users_seq :: int
  categories_seq :: int
  news_seq :: int

text \<open>
  What a model function can throw: its own \<^verbatim>\<open>Error('No valid fields to update')\<close>, a
  constraint violation reported by the store, the \<^verbatim>\<open>TypeError\<close> of a method call on
  a value that has no such method, and the store's refusal of a statement that it
  cannot compile (\<^verbatim>\<open>SQLITE_ERROR\<close>).
\<close>

datatype error = NoValidFields | SqliteConstraint | TypeError | SqliteError

text \<open>
  The columns of the two tables that a statement of the program joins with a column
  name written without its table, from the \<^verbatim>\<open>CREATE TABLE\<close> statements. Such a name
  is ambiguous when both tables of the join have the column, and the store refuses
  the statement.
\<close>

definition categories_columns :: "string list" where
  "categories_columns =
     [''id'', ''name'', ''description'', ''slug'', ''is_active'', ''created_at'', ''updated_at'']"

definition news_columns :: "string list" where
  "news_columns =
     [''id'', ''title'', ''content'', ''summary'', ''slug'', ''featured_image'', ''status'',
      ''category_id'', ''author_id'', ''published_at'', ''created_at'', ''updated_at'']"

definition ambiguous_column :: "string \<Rightarrow> bool" where
  "ambiguous_column col \<longleftrightarrow> col \<in> set categories_columns \<and> col \<in> set news_columns"

subsection \<open>SQL expressions\<close>

text \<open>\<^verbatim>\<open>a = b\<close> in a \<^verbatim>\<open>WHERE\<close> clause: never true when a side is \<open>NULL\<close>.\<close>

definition sql_eq :: "val \<Rightarrow> val \<Rightarrow> bool" where
  "sql_eq a b = (a \<noteq> JNull \<and> b \<noteq> JNull \<and> a = b)"

definition asciiLower :: "char \<Rightarrow> char" where
  "asciiLower c = (let n = (of_char c :: nat) in
     if 65 \<le> n \<and> n \<le> 90 then char_of (n + 32) else c)"

text \<open>
  \<^verbatim>\<open>text LIKE pattern\<close>: \<^verbatim>\<open>%\<close> matches any run of characters, \<^verbatim>\<open>_\<close> any one
  character, every other character itself without regard to ASCII case.
\<close>

fun like_match :: "string \<Rightarrow> string \<Rightarrow> bool" where
  "like_match [] t = (t = [])"
| "like_match (p # ps) [] = (p = CHR ''%'' \<and> like_match ps [])"
| "like_match (p # ps) (c # cs) =
     (if p = CHR ''%'' then like_match ps (c # cs) \<or> like_match (p # ps) cs
      else (p = CHR ''_'' \<or> asciiLower p = asciiLower c) \<and> like_match ps cs)"

definition digit_char :: "nat \<Rightarrow> char" where
  "digit_char n = char_of (48 + n)"

function decimal_nat :: "nat \<Rightarrow> string" where
  "decimal_nat n = (if n < 10 then [digit_char n] else decimal_nat (n div 10) @ [digit_char (n mod 10)])"
  by pat_completeness auto
termination
  by (relation "measure id") auto

definition decimal :: "int \<Rightarrow> string" where
  "decimal i = (if i < 0 then CHR ''-'' # decimal_nat (nat (- i)) else decimal_nat (nat i))"

definition sql_like :: "val \<Rightarrow> string \<Rightarrow> bool" where
  "sql_like v pat =
     (case v of JStr t \<Rightarrow> like_match pat t | JNum n \<Rightarrow> like_match pat (decimal n) | _ \<Rightarrow> False)"

text \<open>The pattern of every search: \<^verbatim>\<open>`%${search}%`\<close>.\<close>

definition searchTerm :: "string \<Rightarrow> string" where
  "searchTerm search = CHR ''%'' # search @ [CHR ''%'']"

subsection \<open>Ordering, limit and offset\<close>

text \<open>
  \<^verbatim>\<open>ORDER BY\<close> compares \<open>NULL\<close> below numbers below text, numbers by value and text
  byte by byte. Rows with equal keys keep their order (SQL leaves it open).
\<close>

fun str_le :: "string \<Rightarrow> string \<Rightarrow> bool" where
  "str_le [] t = True"
| "str_le (a # as) [] = False"
| "str_le (a # as) (b # bs) =
     ((of_char a :: nat) < of_char b \<or> (a = b \<and> str_le as bs))"

fun val_rank :: "val \<Rightarrow> nat" where
  "val_rank Undefined = 0"
| "val_rank JNull = 0"
| "val_rank (JBool b) = 1"
| "val_rank (JNum n) = 1"
| "val_rank (JStr s) = 2"

fun val_le :: "val \<Rightarrow> val \<Rightarrow> bool" where
  "val_le (JNum x) (JNum y) = (x \<le> y)"
| "val_le (JStr s) (JStr t) = str_le s t"
| "val_le a b = (val_rank a \<le> val_rank b)"

fun insert_by :: "('a \<Rightarrow> 'a \<Rightarrow> bool) \<Rightarrow> 'a \<Rightarrow> 'a list \<Rightarrow> 'a list" where
  "insert_by le x [] = [x]"
| "insert_by le x (y # ys) = (if le x y then x # y # ys else y # insert_by le x ys)"

definition sort_by :: "('a \<Rightarrow> 'a \<Rightarrow> bool) \<Rightarrow> 'a list \<Rightarrow> 'a list" where
  "sort_by le xs = foldr (insert_by le) xs []"

text \<open>\<^verbatim>\<open>ORDER BY key ASC\<close> or \<^verbatim>\<open>DESC\<close>; the flag is \<^verbatim>\<open>order.toLowerCase() === 'asc'\<close>.\<close>

definition order_by :: "('a \<Rightarrow> val) \<Rightarrow> bool \<Rightarrow> 'a list \<Rightarrow> 'a list" where
  "order_by key asc xs =
     sort_by (\<lambda>x y. if asc then val_le (key x) (key y) else val_le (key y) (key x)) xs"

text \<open>
  \<^verbatim>\<open>LIMIT l OFFSET o\<close>: a negative offset counts as 0, a negative limit as no limit.
  The listings bind the two as parameters, and the store refuses a number that is no
  64-bit integer (a datatype mismatch, from \<open>2 ^ 63\<close> on). The listings are modelled on
  limits and offsets that are safe integers of JavaScript, which is what the request
  schemas let through but for the largest pages: there the offset
  \<^verbatim>\<open>(page - 1) * limit\<close> is computed exactly and both numbers are in the range of the
  store. \<open>safe_integer\<close> is that condition, and the properties of the listings are stated
  under it.
\<close>

definition safe_integer :: "int \<Rightarrow> bool" where
  "safe_integer n \<longleftrightarrow> - (2 ^ 53) < n \<and> n < 2 ^ 53"

definition limit_offset :: "int \<Rightarrow> int \<Rightarrow> 'a list \<Rightarrow> 'a list" where
  "limit_offset l o' xs = (let ys = drop (nat o') xs in if l < 0 then ys else take (nat l) ys)"

text \<open>
  \<^verbatim>\<open>Math.ceil(total / limit)\<close> on integers: the quotient of a division by zero is
  \<open>NaN\<close> or an infinity, which \<^verbatim>\<open>Math.ceil\<close> returns as it is.
\<close>

datatype jsnum = Fin int | PosInfinity | NegInfinity | NaN

definition ceil_div :: "int \<Rightarrow> int \<Rightarrow> jsnum" where
  "ceil_div tot lmt =
     (if lmt = 0 then (if tot = 0 then NaN else if 0 < tot then PosInfinity else NegInfinity)
      else Fin (- ((- tot) div lmt)))"

record pagination =
  pg_page :: int
  pg_limit :: int
  pg_total :: int
  pg_pages :: jsnum

record 'a listing =
  items :: "'a list"
  pagination :: pagination

text \<open>
  The options of a listing as the controllers build them: a page and a limit that are
  integers or absent, strings or absent for sort, order, status and search, integers
  or absent for the two ids. \<open>None\<close> is \<open>undefined\<close>, for which the defaults of the
  destructuring apply.
\<close>

definition dflt :: "'a \<Rightarrow> 'a option \<Rightarrow> 'a" where
  "dflt d x = (case x of None \<Rightarrow> d | Some v \<Rightarrow> v)"

text \<open>\<^verbatim>\<open>if (x) { whereConditions.push(...) }\<close> for a string and for a number.\<close>

definition when_str :: "string option \<Rightarrow> (string \<Rightarrow> 'a) \<Rightarrow> 'a list" where
  "when_str x f = (case x of None \<Rightarrow> [] | Some s \<Rightarrow> if s \<noteq> [] then [f s] else [])"

definition when_num :: "int option \<Rightarrow> (int \<Rightarrow> 'a) \<Rightarrow> 'a list" where
  "when_num x f = (case x of None \<Rightarrow> [] | Some k \<Rightarrow> if k \<noteq> 0 then [f k] else [])"

text \<open>\<^verbatim>\<open>if (typeof x === 'boolean') { ... params.push(x ? 1 : 0) }\<close>.\<close>

definition when_bool :: "bool option \<Rightarrow> (val \<Rightarrow> 'a) \<Rightarrow> 'a list" where
  "when_bool x f = (case x of None \<Rightarrow> [] | Some b \<Rightarrow> [f (JNum (if b then 1 else 0))])"

text \<open>The conjunction \<^verbatim>\<open>whereConditions.join(' AND ')\<close>; no condition, no \<^verbatim>\<open>WHERE\<close>.\<close>

definition where_all :: "('a \<Rightarrow> bool) list \<Rightarrow> 'a \<Rightarrow> bool" where
  "where_all conds r = list_all (\<lambda>c. c r) conds"

section \<open>The News model\<close>

text \<open>
  A news row as the reads return it: the row with the category's name and slug and the
  author's username and names from the two left joins. A column that a \<^verbatim>\<open>SELECT\<close>
  leaves out reads \<open>undefined\<close>.
\<close>

record news_view = news_row +
  v_category_name :: val
  v_category_slug :: val
  v_author_username :: val
  v_author_first_name :: val
  v_author_last_name :: val

definition join_category :: "db \<Rightarrow> news_row \<Rightarrow> category_row option list" where
  "join_category d n =
     (case filter (\<lambda>c. JNum (c_id c) = n_category_id n) (categories d) of
        [] \<Rightarrow> [None] | cs \<Rightarrow> map Some cs)"

definition join_author :: "db \<Rightarrow> news_row \<Rightarrow> user_row option list" where
  "join_author d n =
     (case filter (\<lambda>u. JNum (u_id u) = n_author_id n) (users d) of
        [] \<Rightarrow> [None] | us \<Rightarrow> map Some us)"

definition col_of :: "('r \<Rightarrow> val) \<Rightarrow> 'r option \<Rightarrow> val" where
  "col_of f x = (case x of None \<Rightarrow> JNull | Some r \<Rightarrow> f r)"

definition mk_view :: "news_row \<Rightarrow> category_row option \<Rightarrow> user_row option \<Rightarrow> news_view" where
  "mk_view n c u =
     news_row.extend n
       (news_view.fields (col_of c_name c) (col_of c_slug c)
          (col_of u_username u) (col_of u_first_name u) (col_of u_last_name u))"

text \<open>\<^verbatim>\<open>FROM news n LEFT JOIN categories c ON ... LEFT JOIN users u ON ...\<close>.\<close>

definition news_joined :: "db \<Rightarrow> news_view list" where
  "news_joined d =
     concat (map (\<lambda>n. concat (map (\<lambda>c. map (\<lambda>u. mk_view n c u) (join_author d n))
                                 (join_category d n))) (news d))"

text \<open>\<^verbatim>\<open>getOne\<close>: the first row of the result, or nothing.\<close>

definition getOne :: "'a list \<Rightarrow> 'a option" where
  "getOne rows = (case rows of [] \<Rightarrow> None | r # _ \<Rightarrow> Some r)"

definition News_findById :: "db \<Rightarrow> int \<Rightarrow> news_view option" where
  "News_findById d i = getOne (filter (\<lambda>v. n_id v = i) (news_joined d))"

definition News_findBySlug :: "db \<Rightarrow> val \<Rightarrow> news_view option" where
  "News_findBySlug d slug = getOne (filter (\<lambda>v. sql_eq (n_slug v) (bind_param slug)) (news_joined d))"

record news_options =
  no_page :: "int option"
  no_limit :: "int option"
  no_sort :: "string option"
  no_order :: "string option"
  no_status :: "string option"
  no_category_id :: "int option"
  no_author_id :: "int option"
  no_search :: "string option"

definition News_conditions :: "news_options \<Rightarrow> (news_view \<Rightarrow> bool) list" where
  "News_conditions opts =
     when_str (no_status opts) (\<lambda>s v. sql_eq (n_status v) (JStr s)) @
     when_num (no_category_id opts) (\<lambda>k v. sql_eq (n_category_id v) (JNum k)) @
     when_num (no_author_id opts) (\<lambda>k v. sql_eq (n_author_id v) (JNum k)) @
     when_str (no_search opts) (\<lambda>s v.
        sql_like (n_title v) (searchTerm s) \<or> sql_like (n_content v) (searchTerm s) \<or>
        sql_like (n_summary v) (searchTerm s))"

definition news_sort_key :: "string \<Rightarrow> news_view \<Rightarrow> val" where
  "news_sort_key f v =
     (if f = ''id'' then JNum (n_id v)
      else if f = ''title'' then n_title v
      else if f = ''status'' then n_status v
      else if f = ''published_at'' then n_published_at v
      else n_created_at v)"

text \<open>
  \<^verbatim>\<open>findAll\<close> runs two statements over the same \<^verbatim>\<open>WHERE\<close> clause: the count, and the
  page in the order asked for. \<open>matching\<close> is what the clause selects, \<open>ordered\<close> is
  that in the order of the \<^verbatim>\<open>ORDER BY\<close>, before \<^verbatim>\<open>LIMIT\<close> and \<^verbatim>\<open>OFFSET\<close>.
\<close>

definition News_matching :: "db \<Rightarrow> news_options \<Rightarrow> news_view list" where
  "News_matching d opts = filter (where_all (News_conditions opts)) (news_joined d)"

definition News_ordered :: "db \<Rightarrow> news_options \<Rightarrow> news_view list" where
  "News_ordered d opts =
     (let sort = dflt ''created_at'' (no_sort opts);
          order = dflt ''desc'' (no_order opts);
          validSortFields = [''id'', ''title'', ''status'', ''published_at'', ''created_at''];
          sortField = (if sort \<in> set validSortFields then sort else ''created_at'');
          asc = (toLowerCase order = ''asc'')
      in order_by (news_sort_key sortField) asc (News_matching d opts))"

definition News_findAll :: "db \<Rightarrow> news_options \<Rightarrow> news_view listing" where
  "News_findAll d opts =
     (let page = dflt 1 (no_page opts);
          limit = dflt 10 (no_limit opts);
          offset = (page - 1) * limit;
          tot = int (length (News_matching d opts));
          rows = limit_offset limit offset (News_ordered d opts)
      in \<lparr>items = map (\<lambda>v. v\<lparr>n_content := Undefined\<rparr>) rows,
          pagination = \<lparr>pg_page = page, pg_limit = limit, pg_total = tot,
                        pg_pages = ceil_div tot limit\<rparr>\<rparr>)"

text \<open>\<^verbatim>\<open>{ ...options, status: 'published' }\<close> and its two siblings.\<close>

definition News_findPublished :: "db \<Rightarrow> news_options \<Rightarrow> news_view listing" where
  "News_findPublished d opts = News_findAll d (opts\<lparr>no_status := Some ''published''\<rparr>)"

definition News_findByCategory :: "db \<Rightarrow> int \<Rightarrow> news_options \<Rightarrow> news_view listing" where
  "News_findByCategory d categoryId opts = News_findAll d (opts\<lparr>no_category_id := Some categoryId\<rparr>)"

definition News_findByAuthor :: "db \<Rightarrow> int \<Rightarrow> news_options \<Rightarrow> news_view listing" where
  "News_findByAuthor d authorId opts = News_findAll d (opts\<lparr>no_author_id := Some authorId\<rparr>)"

subsection \<open>Writes to the news table\<close>

definition set_news_column :: "string \<times> val \<Rightarrow> news_row \<Rightarrow> news_row" where
  "set_news_column a r =
     (let k = fst a; v = snd a in
      if k = ''title'' then r\<lparr>n_title := v\<rparr>
      else if k = ''content'' then r\<lparr>n_content := v\<rparr>
      else if k = ''summary'' then r\<lparr>n_summary := v\<rparr>
      else if k = ''slug'' then r\<lparr>n_slug := v\<rparr>
      else if k = ''featured_image'' then r\<lparr>n_featured_image := v\<rparr>
      else if k = ''status'' then r\<lparr>n_status := v\<rparr>
      else if k = ''category_id'' then r\<lparr>n_category_id := v\<rparr>
      else if k = ''published_at'' then r\<lparr>n_published_at := v\<rparr>
      else if k = ''updated_at'' then r\<lparr>n_updated_at := v\<rparr>
      else r)"

text \<open>
  The constraints of the table on a written row: \<^verbatim>\<open>NOT NULL\<close> on title, content, slug
  and author, \<^verbatim>\<open>UNIQUE\<close> on slug, and the two foreign keys.
\<close>

definition news_row_ok :: "db \<Rightarrow> news_row \<Rightarrow> bool" where
  "news_row_ok d r =
     (n_title r \<noteq> JNull \<and> n_content r \<noteq> JNull \<and> n_slug r \<noteq> JNull \<and> n_author_id r \<noteq> JNull \<and>
      length (filter (\<lambda>x. n_slug x = n_slug r) (news d)) \<le> 1 \<and>
      (n_category_id r = JNull \<or> (\<exists>c \<in> set (categories d). JNum (c_id c) = n_category_id r)) \<and>
      (\<exists>u \<in> set (users d). JNum (u_id u) = n_author_id r))"

text \<open>\<^verbatim>\<open>UPDATE news SET ... WHERE id = ?\<close>: all or nothing.\<close>

definition update_news :: "db \<Rightarrow> (string \<times> val) list \<Rightarrow> int \<Rightarrow> error + db" where
  "update_news d assigns i =
     (let d' = d\<lparr>news := map (\<lambda>r. if n_id r = i then fold set_news_column assigns r else r) (news d)\<rparr>
      in if list_all (\<lambda>r. n_id r = i \<longrightarrow> news_row_ok d' r) (news d') then Inr d'
         else Inl SqliteConstraint)"

text \<open>The loop over \<^verbatim>\<open>Object.keys(updateData)\<close> that keeps the allowed fields.\<close>

definition allowed_assignments :: "string list \<Rightarrow> obj \<Rightarrow> (string \<times> val) list" where
  "allowed_assignments allowedFields updateData =
     map (\<lambda>k. (k, bind_param (getp updateData k)))
       (filter (\<lambda>k. k \<in> set allowedFields) (map fst updateData))"

definition News_allowedFields :: "string list" where
  "News_allowedFields =
     [''title'', ''content'', ''summary'', ''slug'', ''featured_image'', ''status'', ''category_id'']"

text \<open>The timestamp of a status change: stamped for \<^verbatim>\<open>published\<close>, cleared for another status.\<close>

definition published_at_stamp :: "string \<Rightarrow> obj \<Rightarrow> (string \<times> val) list" where
  "published_at_stamp now updateData =
     (if getp updateData ''status'' = JStr ''published'' then [(''published_at'', JStr now)]
      else if truthy (getp updateData ''status'') \<and> getp updateData ''status'' \<noteq> JStr ''published''
      then [(''published_at'', JNull)]
      else [])"

definition News_updateById :: "db \<Rightarrow> string \<Rightarrow> int \<Rightarrow> obj \<Rightarrow> (error + news_view option) \<times> db" where
  "News_updateById d now i updateData =
     (let updateFields = allowed_assignments News_allowedFields updateData in
      if updateFields = [] then (Inl NoValidFields, d)
      else case update_news d (updateFields @ published_at_stamp now updateData @
                                 [(''updated_at'', JStr now)]) i of
             Inl e \<Rightarrow> (Inl e, d)
           | Inr d' \<Rightarrow> (Inr (News_findById d' i), d'))"

text \<open>\<^verbatim>\<open>DELETE FROM news WHERE id = ?\<close>, returning \<^verbatim>\<open>result.changes > 0\<close>.\<close>

definition News_deleteById :: "db \<Rightarrow> int \<Rightarrow> bool \<times> db" where
  "News_deleteById d i =
     (0 < length (filter (\<lambda>r. n_id r = i) (news d)),
      d\<lparr>news := filter (\<lambda>r. n_id r \<noteq> i) (news d)\<rparr>)"

definition News_existsBySlug :: "db \<Rightarrow> val \<Rightarrow> int option \<Rightarrow> bool" where
  "News_existsBySlug d slug excludeId =
     (getOne (filter (\<lambda>r. sql_eq (n_slug r) (bind_param slug) \<and>
                          (case excludeId of None \<Rightarrow> True | Some x \<Rightarrow> x \<noteq> 0 \<longrightarrow> n_id r \<noteq> x))
                (news d)) \<noteq> None)"

text \<open>The rowid an \<^verbatim>\<open>AUTOINCREMENT\<close> table gives to an inserted row.\<close>

definition next_id :: "int \<Rightarrow> int list \<Rightarrow> int" where
  "next_id seq ids = fold max ids (max seq 0) + 1"

text \<open>
  \<^verbatim>\<open>INSERT INTO news (title, content, summary, slug, featured_image, status,
  category_id, author_id) VALUES (?, ?, ?, ?, ?, ?, ?, ?)\<close>: the columns that are not
  listed take their defaults, which is \<open>NULL\<close> for \<open>published_at\<close>. The result is the
  new id (\<^verbatim>\<open>result.id\<close>) and the store.
\<close>

definition insert_news ::
  "db \<Rightarrow> string \<Rightarrow> val \<Rightarrow> val \<Rightarrow> val \<Rightarrow> val \<Rightarrow> val \<Rightarrow> val \<Rightarrow> val \<Rightarrow> val \<Rightarrow> error + (int \<times> db)" where
  "insert_news d now title content summary slug featured_image status category_id author_id =
     (let i = next_id (news_seq d) (map n_id (news d));
          r = \<lparr>n_id = i,
               n_title = bind_param title,
               n_content = bind_param content,
               n_summary = bind_param summary,
               n_slug = bind_param slug,
               n_featured_image = bind_param featured_image,
               n_status = bind_param status,
               n_category_id = bind_param category_id,
               n_author_id = bind_param author_id,
               n_published_at = JNull,
               n_created_at = JStr now,
               n_updated_at = JStr now\<rparr>;
          d' = d\<lparr>news := news d @ [r], news_seq := i\<rparr>
      in if news_row_ok d' r then Inr (i, d') else Inl SqliteConstraint)"

text \<open>
  \<^verbatim>\<open>slug || this.generateSlug(title)\<close>: the method call throws on a title that is no
  string.
\<close>

definition final_slug :: "(string \<Rightarrow> string) \<Rightarrow> val \<Rightarrow> val \<Rightarrow> error + val" where
  "final_slug generateSlug slug title =
     (if truthy slug then Inr slug
      else case title of JStr t \<Rightarrow> Inr (JStr (generateSlug t)) | _ \<Rightarrow> Inl TypeError)"

definition News_create :: "db \<Rightarrow> string \<Rightarrow> obj \<Rightarrow> (error + news_view option) \<times> db" where
  "News_create d now newsData =
     (let title = getp newsData ''title'';
          slug = getp newsData ''slug'';
          status = (if getp newsData ''status'' = Undefined then JStr ''draft''
                    else getp newsData ''status'')
      in case final_slug News_generateSlug slug title of
           Inl e \<Rightarrow> (Inl e, d)
         | Inr finalSlug \<Rightarrow>
             (case insert_news d now title (getp newsData ''content'') (getp newsData ''summary'')
                     finalSlug (getp newsData ''featured_image'') status
                     (getp newsData ''category_id'') (getp newsData ''author_id'') of
                Inl e \<Rightarrow> (Inl e, d)
              | Inr (i, d') \<Rightarrow> (Inr (News_findById d' i), d')))"

section \<open>The User model\<close>

text \<open>The reads of \<^verbatim>\<open>User\<close> select every column but the password.\<close>

definition without_password :: "user_row \<Rightarrow> user_row" where
  "without_password u = u\<lparr>u_password := Undefined\<rparr>"

definition User_findById :: "db \<Rightarrow> int \<Rightarrow> user_row option" where
  "User_findById d i = getOne (map without_password (filter (\<lambda>u. u_id u = i) (users d)))"

record user_options =
  uo_page :: "int option"
  uo_limit :: "int option"
  uo_sort :: "string option"
  uo_order :: "string option"
  uo_role :: "string option"
  uo_is_active :: "bool option"
  uo_search :: "string option"

definition User_conditions :: "user_options \<Rightarrow> (user_row \<Rightarrow> bool) list" where
  "User_conditions opts =
     when_str (uo_role opts) (\<lambda>s u. sql_eq (u_role u) (JStr s)) @
     when_bool (uo_is_active opts) (\<lambda>b u. sql_eq (u_is_active u) b) @
     when_str (uo_search opts) (\<lambda>s u.
        sql_like (u_username u) (searchTerm s) \<or> sql_like (u_email u) (searchTerm s) \<or>
        sql_like (u_first_name u) (searchTerm s) \<or> sql_like (u_last_name u) (searchTerm s))"

definition user_sort_key :: "string \<Rightarrow> user_row \<Rightarrow> val" where
  "user_sort_key f u =
     (if f = ''id'' then JNum (u_id u)
      else if f = ''username'' then u_username u
      else if f = ''email'' then u_email u
      else if f = ''first_name'' then u_first_name u
      else if f = ''last_name'' then u_last_name u
      else if f = ''role'' then u_role u
      else u_created_at u)"

definition User_matching :: "db \<Rightarrow> user_options \<Rightarrow> user_row list" where
  "User_matching d opts = filter (where_all (User_conditions opts)) (users d)"

definition User_ordered :: "db \<Rightarrow> user_options \<Rightarrow> user_row list" where
  "User_ordered d opts =
     (let sort = dflt ''created_at'' (uo_sort opts);
          order = dflt ''desc'' (uo_order opts);
          validSortFields = [''id'', ''username'', ''email'', ''first_name'', ''last_name'',
                             ''role'', ''created_at''];
          sortField = (if sort \<in> set validSortFields then sort else ''created_at'');
          asc = (toLowerCase order = ''asc'')
      in order_by (user_sort_key sortField) asc (User_matching d opts))"

definition User_findAll :: "db \<Rightarrow> user_options \<Rightarrow> user_row listing" where
  "User_findAll d opts =
     (let page = dflt 1 (uo_page opts);
          limit = dflt 10 (uo_limit opts);
          offset = (page - 1) * limit;
          tot = int (length (User_matching d opts));
          rows = limit_offset limit offset (User_ordered d opts)
      in \<lparr>items = map without_password rows,
          pagination = \<lparr>pg_page = page, pg_limit = limit, pg_total = tot,
                        pg_pages = ceil_div tot limit\<rparr>\<rparr>)"

definition set_user_column :: "string \<times> val \<Rightarrow> user_row \<Rightarrow> user_row" where
  "set_user_column a r =
     (let k = fst a; v = snd a in
      if k = ''username'' then r\<lparr>u_username := v\<rparr>
      else if k = ''email'' then r\<lparr>u_email := v\<rparr>
      else if k = ''first_name'' then r\<lparr>u_first_name := v\<rparr>
      else if k = ''last_name'' then r\<lparr>u_last_name := v\<rparr>
      else if k = ''role'' then r\<lparr>u_role := v\<rparr>
      else if k = ''is_active'' then r\<lparr>u_is_active := v\<rparr>
      else if k = ''updated_at'' then r\<lparr>u_updated_at := v\<rparr>
      else r)"

text \<open>\<^verbatim>\<open>NOT NULL\<close> on username, email and password, \<^verbatim>\<open>UNIQUE\<close> on username and on email.\<close>

definition user_row_ok :: "db \<Rightarrow> user_row \<Rightarrow> bool" where
  "user_row_ok d r =
     (u_username r \<noteq> JNull \<and> u_email r \<noteq> JNull \<and> u_password r \<noteq> JNull \<and>
      length (filter (\<lambda>x. u_username x = u_username r) (users d)) \<le> 1 \<and>
      length (filter (\<lambda>x. u_email x = u_email r) (users d)) \<le> 1)"

definition update_users :: "db \<Rightarrow> (string \<times> val) list \<Rightarrow> int \<Rightarrow> error + db" where
  "update_users d assigns i =
     (let d' = d\<lparr>users := map (\<lambda>r. if u_id r = i then fold set_user_column assigns r else r) (users d)\<rparr>
      in if list_all (\<lambda>r. u_id r = i \<longrightarrow> user_row_ok d' r) (users d') then Inr d'
         else Inl SqliteConstraint)"

definition User_allowedFields :: "string list" where
  "User_allowedFields =
     [''username'', ''email'', ''first_name'', ''last_name'', ''role'', ''is_active'']"

definition User_updateById :: "db \<Rightarrow> string \<Rightarrow> int \<Rightarrow> obj \<Rightarrow> (error + user_row option) \<times> db" where
  "User_updateById d now i updateData =
     (let updateFields = allowed_assignments User_allowedFields updateData in
      if updateFields = [] then (Inl NoValidFields, d)
      else case update_users d (updateFields @ [(''updated_at'', JStr now)]) i of
             Inl e \<Rightarrow> (Inl e, d)
           | Inr d' \<Rightarrow> (Inr (User_findById d' i), d'))"


section \<open>The Category model\<close>

definition Category_findById :: "db \<Rightarrow> val \<Rightarrow> category_row option" where
  "Category_findById d i = getOne (filter (\<lambda>c. sql_eq (JNum (c_id c)) (bind_param i)) (categories d))"

record category_view = category_row +
  v_news_count :: int

text \<open>\<^verbatim>\<open>FROM categories c LEFT JOIN news n ON c.id = n.category_id\<close>.\<close>

definition cat_news_join :: "db \<Rightarrow> (category_row \<times> news_row option) list" where
  "cat_news_join d =
     concat (map (\<lambda>c. case filter (\<lambda>n. n_category_id n = JNum (c_id c)) (news d) of
                         [] \<Rightarrow> [(c, None)] | ns \<Rightarrow> map (\<lambda>n. (c, Some n)) ns)
                 (categories d))"

text \<open>
  \<^verbatim>\<open>COUNT(n.id) ... GROUP BY\<close> every column of the category: one row for each
  distinct category row of the join, with the number of its joined news.
\<close>

definition group_count :: "(category_row \<times> news_row option) list \<Rightarrow> category_view list" where
  "group_count rows =
     map (\<lambda>c. category_row.extend c
                 (category_view.fields (int (length (filter (\<lambda>x. fst x = c \<and> snd x \<noteq> None) rows)))))
         (remdups (map fst rows))"

definition Category_findByIdWithNewsCount :: "db \<Rightarrow> int \<Rightarrow> category_view option" where
  "Category_findByIdWithNewsCount d i =
     getOne (group_count (filter (\<lambda>x. c_id (fst x) = i) (cat_news_join d)))"

record category_options =
  co_page :: "int option"
  co_limit :: "int option"
  co_sort :: "string option"
  co_order :: "string option"
  co_is_active :: "bool option"
  co_search :: "string option"

definition Category_conditions :: "category_options \<Rightarrow> (category_row \<Rightarrow> bool) list" where
  "Category_conditions opts =
     when_bool (co_is_active opts) (\<lambda>b c. sql_eq (c_is_active c) b) @
     when_str (co_search opts) (\<lambda>s c.
        sql_like (c_name c) (searchTerm s) \<or> sql_like (c_description c) (searchTerm s))"

definition category_sort_key :: "string \<Rightarrow> category_view \<Rightarrow> val" where
  "category_sort_key f c =
     (if f = ''id'' then JNum (c_id c)
      else if f = ''name'' then c_name c
      else if f = ''slug'' then c_slug c
      else c_created_at c)"

text \<open>
  The count of \<^verbatim>\<open>Category.findAll\<close> reads the categories alone; its page reads the
  join with the news, grouped. The page statement names the columns of its
  \<^verbatim>\<open>WHERE\<close> clause and of its \<^verbatim>\<open>ORDER BY\<close> without a table (\<^verbatim>\<open>ORDER BY ${sortField}\<close>,
  where \<^verbatim>\<open>News.findAll\<close> writes \<^verbatim>\<open>n.${sortField}\<close>), so the store refuses it when one of
  them is a column of both tables, and \<^verbatim>\<open>findAll\<close> throws after the count.
\<close>

definition Category_unqualified :: "category_options \<Rightarrow> string \<Rightarrow> string list" where
  "Category_unqualified opts sortField =
     when_bool (co_is_active opts) (\<lambda>b. ''is_active'') @
     concat (when_str (co_search opts) (\<lambda>s. [''name'', ''description''])) @
     [sortField]"

definition Category_matching :: "db \<Rightarrow> category_options \<Rightarrow> category_row list" where
  "Category_matching d opts = filter (where_all (Category_conditions opts)) (categories d)"

definition Category_sortField :: "category_options \<Rightarrow> string" where
  "Category_sortField opts =
     (let sort = dflt ''created_at'' (co_sort opts);
          validSortFields = [''id'', ''name'', ''slug'', ''created_at'']
      in if sort \<in> set validSortFields then sort else ''created_at'')"

definition Category_ordered :: "db \<Rightarrow> category_options \<Rightarrow> error + category_view list" where
  "Category_ordered d opts =
     (let sortField = Category_sortField opts;
          order = dflt ''desc'' (co_order opts);
          asc = (toLowerCase order = ''asc'');
          groups = group_count (filter (\<lambda>x. where_all (Category_conditions opts) (fst x))
                                   (cat_news_join d))
      in if list_ex ambiguous_column (Category_unqualified opts sortField) then Inl SqliteError
         else Inr (order_by (category_sort_key sortField) asc groups))"

definition Category_findAll :: "db \<Rightarrow> category_options \<Rightarrow> error + category_view listing" where
  "Category_findAll d opts =
     (let page = dflt 1 (co_page opts);
          limit = dflt 10 (co_limit opts);
          offset = (page - 1) * limit;
          tot = int (length (Category_matching d opts))
      in case Category_ordered d opts of
           Inl e \<Rightarrow> Inl e
         | Inr ordered \<Rightarrow>
             Inr \<lparr>items = limit_offset limit offset ordered,
                  pagination = \<lparr>pg_page = page, pg_limit = limit, pg_total = tot,
                                pg_pages = ceil_div tot limit\<rparr>\<rparr>)"

definition set_category_column :: "string \<times> val \<Rightarrow> category_row \<Rightarrow> category_row" where
  "set_category_column a r =
     (let k = fst a; v = snd a in
      if k = ''name'' then r\<lparr>c_name := v\<rparr>
      else if k = ''description'' then r\<lparr>c_description := v\<rparr>
      else if k = ''slug'' then r\<lparr>c_slug := v\<rparr>
      else if k = ''is_active'' then r\<lparr>c_is_active := v\<rparr>
      else if k = ''updated_at'' then r\<lparr>c_updated_at := v\<rparr>
      else r)"

text \<open>\<^verbatim>\<open>NOT NULL\<close> and \<^verbatim>\<open>UNIQUE\<close> on name and on slug.\<close>

definition category_row_ok :: "db \<Rightarrow> category_row \<Rightarrow> bool" where
  "category_row_ok d r =
     (c_name r \<noteq> JNull \<and> c_slug r \<noteq> JNull \<and>
      length (filter (\<lambda>x. c_name x = c_name r) (categories d)) \<le> 1 \<and>
      length (filter (\<lambda>x. c_slug x = c_slug r) (categories d)) \<le> 1)"

definition update_categories :: "db \<Rightarrow> (string \<times> val) list \<Rightarrow> int \<Rightarrow> error + db" where
  "update_categories d assigns i =
     (let d' = d\<lparr>categories :=
                  map (\<lambda>r. if c_id r = i then fold set_category_column assigns r else r) (categories d)\<rparr>
      in if list_all (\<lambda>r. c_id r = i \<longrightarrow> category_row_ok d' r) (categories d') then Inr d'
         else Inl SqliteConstraint)"

definition Category_allowedFields :: "string list" where
  "Category_allowedFields = [''name'', ''description'', ''slug'', ''is_active'']"

definition Category_updateById ::
  "db \<Rightarrow> string \<Rightarrow> int \<Rightarrow> obj \<Rightarrow> (error + category_row option) \<times> db" where
  "Category_updateById d now i updateData =
     (let updateFields = allowed_assignments Category_allowedFields updateData in
      if updateFields = [] then (Inl NoValidFields, d)
      else case update_categories d (updateFields @ [(''updated_at'', JStr now)]) i of
             Inl e \<Rightarrow> (Inl e, d)
           | Inr d' \<Rightarrow> (Inr (Category_findById d' (JNum i)), d'))"

text \<open>
  \<^verbatim>\<open>DELETE FROM categories WHERE id = ?\<close>; the news of a deleted category lose their
  reference (\<^verbatim>\<open>ON DELETE SET NULL\<close>). The statement itself has no guard.
\<close>

definition Category_deleteById :: "db \<Rightarrow> int \<Rightarrow> bool \<times> db" where
  "Category_deleteById d i =
     (let deleted = (0 < length (filter (\<lambda>c. c_id c = i) (categories d))) in
      (deleted,
       if deleted
       then d\<lparr>categories := filter (\<lambda>c. c_id c \<noteq> i) (categories d),
              news := map (\<lambda>n. if n_category_id n = JNum i then n\<lparr>n_category_id := JNull\<rparr> else n)
                        (news d)\<rparr>
       else d))"

text \<open>The result is the colliding field, or nothing when \<^verbatim>\<open>exists\<close> is false.\<close>

definition Category_checkExists :: "db \<Rightarrow> val \<Rightarrow> val \<Rightarrow> int option \<Rightarrow> string option" where
  "Category_checkExists d name slug excludeId =
     (case getOne (filter (\<lambda>c. (sql_eq (c_name c) (bind_param name) \<or>
                                  sql_eq (c_slug c) (bind_param slug)) \<and>
                                 (case excludeId of None \<Rightarrow> True | Some x \<Rightarrow> x \<noteq> 0 \<longrightarrow> c_id c \<noteq> x))
                     (categories d)) of
        None \<Rightarrow> None
      | Some existingCategory \<Rightarrow> Some (if c_name existingCategory = name then ''name'' else ''slug''))"

section \<open>The controllers\<close>

text \<open>
  A controller takes the store, the authenticated caller (\<^verbatim>\<open>req.user\<close>), the id that
  \<^verbatim>\<open>validateId\<close> left in \<^verbatim>\<open>req.params.id\<close> and the request body, and returns the
  response and the store after the request. \<open>now\<close> is the store's
  \<^verbatim>\<open>CURRENT_TIMESTAMP\<close>. A \<^verbatim>\<open>catch\<close> answers 500 and keeps what the store holds.
\<close>

record caller =
  cu_id :: int
  cu_role :: val

record 'a response =
  rs_code :: nat
  rs_status :: string
  rs_message :: string
  rs_data :: "'a option"

definition failure :: "nat \<Rightarrow> string \<Rightarrow> 'a response" where
  "failure code msg = \<lparr>rs_code = code, rs_status = ''error'', rs_message = msg, rs_data = None\<rparr>"

definition success :: "nat \<Rightarrow> string \<Rightarrow> 'a option \<Rightarrow> 'a response" where
  "success code msg x = \<lparr>rs_code = code, rs_status = ''success'', rs_message = msg, rs_data = x\<rparr>"

subsection \<open>UserController\<close>



subsection \<open>NewsController\<close>

text \<open>
  \<^verbatim>\<open>if (updateData.title && !updateData.slug) updateData.slug = generateSlug(updateData.title)\<close>,
  for a title and a name alike: the assignment keeps the place of a key that exists and
  appends a new one; the method call throws on a title that is no string.
\<close>

definition fill_slug :: "(string \<Rightarrow> string) \<Rightarrow> string \<Rightarrow> obj \<Rightarrow> error + obj" where
  "fill_slug generateSlug key updateData =
     (if truthy (getp updateData key) \<and> \<not> truthy (getp updateData ''slug'')
      then case getp updateData key of
             JStr t \<Rightarrow> Inr (AList.update ''slug'' (JStr (generateSlug t)) updateData)
           | _ \<Rightarrow> Inl TypeError
      else Inr updateData)"

definition NewsController_updateNews ::
  "db \<Rightarrow> string \<Rightarrow> caller \<Rightarrow> int \<Rightarrow> obj \<Rightarrow> news_view response \<times> db" where
  "NewsController_updateNews d now user newsId body =
     (case News_findById d newsId of
        None \<Rightarrow> (failure 404 ''News article not found'', d)
      | Some existingNews \<Rightarrow>
          if cu_role user \<noteq> JStr ''admin'' \<and> cu_role user \<noteq> JStr ''editor'' \<and>
             JNum (cu_id user) \<noteq> n_author_id existingNews
          then (failure 403 ''Access denied - you can only edit your own articles'', d)
          else case fill_slug News_generateSlug ''title'' body of
            Inl e \<Rightarrow> (failure 500 ''Failed to update news article'', d)
          | Inr updateData \<Rightarrow>
              if truthy (getp updateData ''slug'') \<and>
                 News_existsBySlug d (getp updateData ''slug'') (Some newsId)
              then (failure 400 ''Another news article with this slug already exists'', d)
              else if truthy (getp updateData ''category_id'') \<and>
                      Category_findById d (getp updateData ''category_id'') = None
              then (failure 400 ''Category not found'', d)
              else case News_updateById d now newsId updateData of
                (Inl e, d') \<Rightarrow> (failure 500 ''Failed to update news article'', d')
              | (Inr None, d') \<Rightarrow> (failure 500 ''Failed to update news article'', d')
              | (Inr (Some updatedNews), d') \<Rightarrow>
                  (success 200 ''News article updated successfully'' (Some updatedNews), d'))"

definition NewsController_deleteNews :: "db \<Rightarrow> caller \<Rightarrow> int \<Rightarrow> news_view response \<times> db" where
  "NewsController_deleteNews d user newsId =
     (case News_findById d newsId of
        None \<Rightarrow> (failure 404 ''News article not found'', d)
      | Some found \<Rightarrow>
          if cu_role user \<noteq> JStr ''admin'' \<and> cu_role user \<noteq> JStr ''editor'' \<and>
             JNum (cu_id user) \<noteq> n_author_id found
          then (failure 403 ''Access denied - you can only delete your own articles'', d)
          else case News_deleteById d newsId of
            (deleted, d') \<Rightarrow>
              if \<not> deleted then (failure 400 ''Failed to delete news article'', d')
              else (success 200 ''News article deleted successfully'' None, d'))"

subsection \<open>CategoryController\<close>

text \<open>\<^verbatim>\<open>a || b\<close> on values.\<close>

definition js_or :: "val \<Rightarrow> val \<Rightarrow> val" where
  "js_or a b = (if truthy a then a else b)"

definition CategoryController_updateCategory ::
  "db \<Rightarrow> string \<Rightarrow> caller \<Rightarrow> int \<Rightarrow> obj \<Rightarrow> category_row response \<times> db" where
  "CategoryController_updateCategory d now user categoryId body =
     (case Category_findById d (JNum categoryId) of
        None \<Rightarrow> (failure 404 ''Category not found'', d)
      | Some existingCategory \<Rightarrow>
          (case fill_slug Category_generateSlug ''name'' body of
             Inl e \<Rightarrow> (failure 500 ''Failed to update category'', d)
           | Inr updateData \<Rightarrow>
               (case (if truthy (getp updateData ''name'') \<or> truthy (getp updateData ''slug'')
                      then Category_checkExists d
                             (js_or (getp updateData ''name'') (c_name existingCategory))
                             (js_or (getp updateData ''slug'') (c_slug existingCategory))
                             (Some categoryId)
                      else None) of
                  Some field \<Rightarrow>
                    (failure 400 (''Another category with this '' @ field @ '' already exists''), d)
                | None \<Rightarrow>
                    (case Category_updateById d now categoryId updateData of
                       (Inl e, d') \<Rightarrow> (failure 500 ''Failed to update category'', d')
                     | (Inr None, d') \<Rightarrow> (failure 500 ''Failed to update category'', d')
                     | (Inr (Some updatedCategory), d') \<Rightarrow>
                         (success 200 ''Category updated successfully'' (Some updatedCategory), d')))))"

definition CategoryController_deleteCategory ::
  "db \<Rightarrow> caller \<Rightarrow> int \<Rightarrow> category_row response \<times> db" where
  "CategoryController_deleteCategory d user categoryId =
     (case Category_findByIdWithNewsCount d categoryId of
        None \<Rightarrow> (failure 404 ''Category not found'', d)
      | Some category \<Rightarrow>
          if 0 < v_news_count category
          then (failure 400 (''Cannot delete category. It has '' @ decimal (v_news_count category)
                              @ '' news article(s) associated with it''), d)
          else case Category_deleteById d categoryId of
            (deleted, d') \<Rightarrow>
              if \<not> deleted then (failure 400 ''Failed to delete category'', d')
              else (success 200 ''Category deleted successfully'' None, d'))"

section \<open>The routes\<close>

text \<open>
  A route runs its middlewares in the order it lists them, each one either answering
  the request or handing it on: for the news, \<^verbatim>\<open>router.put('/:id', authenticateToken,
  validateId, validate(newsSchemas.update), NewsController.updateNews)\<close> and
  \<^verbatim>\<open>router.delete('/:id', authenticateToken, validateId, NewsController.deleteNews)\<close>.
  The caller is the user that \<^verbatim>\<open>authenticateToken\<close> found.
\<close>

text \<open>
  \<^verbatim>\<open>validateId\<close>: the argument is \<^verbatim>\<open>parseInt(req.params.id)\<close>, \<open>None\<close> for \<open>NaN\<close>; the
  result is the id it stores in \<^verbatim>\<open>req.params.id\<close>, \<open>None\<close> when it answers 400.
\<close>

definition validateId :: "int option \<Rightarrow> int option" where
  "validateId parsed = (case parsed of None \<Rightarrow> None | Some i \<Rightarrow> if i < 1 then None else Some i)"

text \<open>\<^verbatim>\<open>authorize(...roles)\<close> hands the request on when \<^verbatim>\<open>roles.includes(req.user.role)\<close>.\<close>

definition authorize :: "string list \<Rightarrow> caller \<Rightarrow> bool" where
  "authorize roles user = (cu_role user \<in> set (map JStr roles))"

text \<open>
  The rules of \<^verbatim>\<open>newsSchemas.update\<close>. Every key is optional, so \<open>undefined\<close> passes its
  rule. \<^verbatim>\<open>Joi.string()\<close> accepts a string that is not empty, within the bounds on its
  length; \<^verbatim>\<open>.valid(...)\<close> accepts the listed strings only; \<^verbatim>\<open>Joi.number().integer()
  .positive()\<close> accepts a positive integer and converts a string that denotes one. The
  library's test of a URI and its reading of a string as an integer are parameters.
\<close>

definition joi_string :: "nat \<Rightarrow> nat option \<Rightarrow> val \<Rightarrow> bool" where
  "joi_string lo hi v =
     (case v of
        Undefined \<Rightarrow> True
      | JStr s \<Rightarrow> s \<noteq> [] \<and> lo \<le> length s \<and> (case hi of None \<Rightarrow> True | Some h \<Rightarrow> length s \<le> h)
      | _ \<Rightarrow> False)"

definition joi_uri :: "(string \<Rightarrow> bool) \<Rightarrow> val \<Rightarrow> bool" where
  "joi_uri isUri v = (case v of Undefined \<Rightarrow> True | JStr s \<Rightarrow> s \<noteq> [] \<and> isUri s | _ \<Rightarrow> False)"

definition joi_valid :: "string list \<Rightarrow> val \<Rightarrow> bool" where
  "joi_valid allowed v = (case v of Undefined \<Rightarrow> True | JStr s \<Rightarrow> s \<in> set allowed | _ \<Rightarrow> False)"

definition joi_positive_integer :: "(string \<Rightarrow> int option) \<Rightarrow> val \<Rightarrow> val option" where
  "joi_positive_integer toInt v =
     (case v of
        Undefined \<Rightarrow> Some Undefined
      | JNum n \<Rightarrow> if 0 < n then Some (JNum n) else None
      | JStr s \<Rightarrow> (case toInt s of None \<Rightarrow> None | Some n \<Rightarrow> if 0 < n then Some (JNum n) else None)
      | _ \<Rightarrow> None)"

text \<open>
  \<^verbatim>\<open>newsSchemas.update.validate(req.body, { abortEarly: false, allowUnknown: false,
  stripUnknown: true })\<close>: an error, or the body without its unknown keys and with the
  converted \<open>category_id\<close>.
\<close>

definition newsSchemas_update :: "(string \<Rightarrow> bool) \<Rightarrow> (string \<Rightarrow> int option) \<Rightarrow> obj \<Rightarrow> string + obj" where
  "newsSchemas_update isUri toInt body =
     (if joi_string 1 (Some 500) (getp body ''title'') \<and>
         joi_string 1 None (getp body ''content'') \<and>
         joi_string 0 (Some 1000) (getp body ''summary'') \<and>
         joi_string 1 (Some 500) (getp body ''slug'') \<and>
         joi_uri isUri (getp body ''featured_image'') \<and>
         joi_valid [''draft'', ''published'', ''archived''] (getp body ''status'') \<and>
         joi_positive_integer toInt (getp body ''category_id'') \<noteq> None
      then Inr (map (\<lambda>a. if fst a = ''category_id''
                          then (fst a, the (joi_positive_integer toInt (getp body ''category_id'')))
                          else a)
                  (filter (\<lambda>a. fst a \<in> set [''title'', ''content'', ''summary'', ''slug'',
                                               ''featured_image'', ''status'', ''category_id''])
                     body))
      else Inl ''Validation error'')"

text \<open>
  The two routes of the ownership-gated operations. \<^verbatim>\<open>validate(schema)\<close> answers 400
  when the schema returns an error and otherwise replaces the body by the schema's value.
\<close>

definition news_put_route ::
  "(obj \<Rightarrow> string + obj) \<Rightarrow> db \<Rightarrow> string \<Rightarrow> caller \<Rightarrow> int option \<Rightarrow> obj \<Rightarrow> news_view response \<times> db" where
  "news_put_route schema d now user parsed body =
     (case validateId parsed of
        None \<Rightarrow> (failure 400 ''Invalid ID parameter'', d)
      | Some i \<Rightarrow>
          (case schema body of
             Inl details \<Rightarrow> (failure 400 ''Validation error'', d)
           | Inr v \<Rightarrow> NewsController_updateNews d now user i v))"

definition news_delete_route :: "db \<Rightarrow> caller \<Rightarrow> int option \<Rightarrow> news_view response \<times> db" where
  "news_delete_route d user parsed =
     (case validateId parsed of
        None \<Rightarrow> (failure 400 ''Invalid ID parameter'', d)
      | Some i \<Rightarrow> NewsController_deleteNews d user i)"



definition categories_delete_route :: "db \<Rightarrow> caller \<Rightarrow> int option \<Rightarrow> category_row response \<times> db" where
  "categories_delete_route d user parsed =
     (if \<not> authorize [''admin''] user
      then (failure 403 ''Access denied - insufficient permissions'', d)
      else case validateId parsed of
             None \<Rightarrow> (failure 400 ''Invalid ID parameter'', d)
           | Some i \<Rightarrow> CategoryController_deleteCategory d user i)"

section \<open>Notions of the specification\<close>

text \<open>The news articles associated with a category: those whose \<open>category_id\<close> is its id.\<close>

definition associated_news :: "db \<Rightarrow> int \<Rightarrow> news_row list" where
  "associated_news d i = filter (\<lambda>n. n_category_id n = JNum i) (news d)"

subsection \<open>The filter of a listing as the specification words it\<close>

text \<open>
  The specification's filter is the conjunction of the options that are provided, an
  absent one being no constraint: an equality for each of role, \<open>is_active\<close>, status,
  \<open>category_id\<close> and \<open>author_id\<close>, and for the search a match of the term, wrapped in
  wildcards on both sides, on one of the entity's text columns. These predicates are
  on the rows of the entity's own table; they are what the \<^verbatim>\<open>WHERE\<close> clauses of the
  listings are compared with.
\<close>

definition provided :: "'a option \<Rightarrow> ('a \<Rightarrow> bool) \<Rightarrow> bool" where
  "provided x P = (case x of None \<Rightarrow> True | Some v \<Rightarrow> P v)"

definition user_filter_spec :: "user_options \<Rightarrow> user_row \<Rightarrow> bool" where
  "user_filter_spec opts u \<longleftrightarrow>
     provided (uo_role opts) (\<lambda>r. u_role u = JStr r) \<and>
     provided (uo_is_active opts) (\<lambda>b. u_is_active u = JNum (if b then 1 else 0)) \<and>
     provided (uo_search opts) (\<lambda>s.
        sql_like (u_username u) (searchTerm s) \<or> sql_like (u_email u) (searchTerm s) \<or>
        sql_like (u_first_name u) (searchTerm s) \<or> sql_like (u_last_name u) (searchTerm s))"

definition category_filter_spec :: "category_options \<Rightarrow> category_row \<Rightarrow> bool" where
  "category_filter_spec opts c \<longleftrightarrow>
     provided (co_is_active opts) (\<lambda>b. c_is_active c = JNum (if b then 1 else 0)) \<and>
     provided (co_search opts) (\<lambda>s.
        sql_like (c_name c) (searchTerm s) \<or> sql_like (c_description c) (searchTerm s))"

definition news_filter_spec :: "news_options \<Rightarrow> news_row \<Rightarrow> bool" where
  "news_filter_spec opts n \<longleftrightarrow>
     provided (no_status opts) (\<lambda>s. n_status n = JStr s) \<and>
     provided (no_category_id opts) (\<lambda>k. n_category_id n = JNum k) \<and>
     provided (no_author_id opts) (\<lambda>k. n_author_id n = JNum k) \<and>
     provided (no_search opts) (\<lambda>s.
        sql_like (n_title n) (searchTerm s) \<or> sql_like (n_content n) (searchTerm s) \<or>
        sql_like (n_summary n) (searchTerm s))"

text \<open>
  Valid options: a page and a limit of at least 1 whose offset is a safe integer, a
  status, role or search term that is not the empty string, and ids that are not 0
  (the request schemas admit only positive ones).
\<close>

definition valid_paging :: "int \<Rightarrow> int \<Rightarrow> bool" where
  "valid_paging page limit \<longleftrightarrow>
     1 \<le> page \<and> 1 \<le> limit \<and> safe_integer limit \<and> safe_integer ((page - 1) * limit)"

definition given_string :: "string option \<Rightarrow> bool" where
  "given_string x = provided x (\<lambda>s. s \<noteq> [])"

definition given_id :: "int option \<Rightarrow> bool" where
  "given_id x = provided x (\<lambda>k. k \<noteq> 0)"

text \<open>The keys of the store: the ids of the users and of the categories are unique.\<close>

definition unique_keys :: "db \<Rightarrow> bool" where
  "unique_keys d \<longleftrightarrow> distinct (map u_id (users d)) \<and> distinct (map c_id (categories d))"

section \<open>An example store\<close>

text \<open>
  Four users (an admin, an editor and two plain users), two categories and two news
  articles: a draft of user 3 in category 1 and a published article of user 4 without a
  category. Category 2 has no news.
\<close>

definition mk_user :: "int \<Rightarrow> string \<Rightarrow> string \<Rightarrow> user_row" where
  "mk_user i name role =
     \<lparr>u_id = i, u_username = JStr name, u_email = JStr (name @ ''@x.com''),
      u_password = JStr ''$2a$12$hash'', u_first_name = JNull, u_last_name = JNull,
      u_role = JStr role, u_is_active = JNum 1,
      u_created_at = JStr ''2024-01-01 00:00:00'', u_updated_at = JStr ''2024-01-01 00:00:00''\<rparr>"

definition mk_category :: "int \<Rightarrow> string \<Rightarrow> string \<Rightarrow> category_row" where
  "mk_category i name slug =
     \<lparr>c_id = i, c_name = JStr name, c_description = JNull, c_slug = JStr slug,
      c_is_active = JNum 1,
      c_created_at = JStr ''2024-01-01 00:00:00'', c_updated_at = JStr ''2024-01-01 00:00:00''\<rparr>"

definition example_db :: db where
  "example_db =
     \<lparr>users = [mk_user 1 ''root'' ''admin'', mk_user 2 ''edith'' ''editor'',
               mk_user 3 ''alice'' ''user'', mk_user 4 ''bob'' ''user''],
      categories = [mk_category 1 ''Tech'' ''tech'', mk_category 2 ''Sports'' ''sports''],
      news =
        [\<lparr>n_id = 1, n_title = JStr ''First Post'', n_content = JStr ''Hello'',
          n_summary = JNull, n_slug = JStr ''first-post'', n_featured_image = JNull,
          n_status = JStr ''draft'', n_category_id = JNum 1, n_author_id = JNum 3,
          n_published_at = JNull,
          n_created_at = JStr ''2024-01-02 00:00:00'', n_updated_at = JStr ''2024-01-02 00:00:00''\<rparr>,
         \<lparr>n_id = 2, n_title = JStr ''Second Post'', n_content = JStr ''World'',
          n_summary = JStr ''short'', n_slug = JStr ''second-post'', n_featured_image = JNull,
          n_status = JStr ''published'', n_category_id = JNull, n_author_id = JNum 4,
          n_published_at = JStr ''2024-01-03 00:00:00'',
          n_created_at = JStr ''2024-01-03 00:00:00'', n_updated_at = JStr ''2024-01-03 00:00:00''\<rparr>],
      users_seq = 4, categories_seq = 2, news_seq = 2\<rparr>"

section \<open>Properties of the slug generator\<close>

lemma toLowerChar_not_AZ:
  "\<not> (65 \<le> (of_char (toLowerChar c) :: nat) \<and> (of_char (toLowerChar c) :: nat) \<le> 90)"
  by (auto simp: toLowerChar_def isUpper_def Let_def)

lemma isWord_toLowerChar:
  "isWord (toLowerChar c) \<longleftrightarrow> isLowerAlnum (toLowerChar c) \<or> toLowerChar c = CHR ''_''"
  using toLowerChar_not_AZ[of c]
  by (auto simp: isWord_def isLowerAlnum_def Let_def)

lemma set_trim: "set (trim s) \<subseteq> set s"
  by (auto simp: trim_def dest!: set_dropWhileD)

lemma removeSpecial_lowered:
  "removeSpecial (trim (toLowerCase t)) =
   filter (\<lambda>c. isLowerAlnum c \<or> c = CHR ''_'' \<or> isSpace c \<or> c = CHR ''-'')
     (trim (toLowerCase t))"
  unfolding removeSpecial_def
proof (rule filter_cong[OF refl])
  fix x assume "x \<in> set (trim (toLowerCase t))"
  then have "x \<in> set (toLowerCase t)" using set_trim by blast
  then obtain c where "x = toLowerChar c" by (auto simp: toLowerCase_def)
  then show "(isWord x \<or> isSpace x \<or> x = CHR ''-'') =
             (isLowerAlnum x \<or> x = CHR ''_'' \<or> isSpace x \<or> x = CHR ''-'')"
    using isWord_toLowerChar[of c] by auto
qed

lemma Category_generateSlug_eq: "Category_generateSlug t = slugify_amended t"
  by (simp add: Category_generateSlug_def slugify_amended_def removeSpecial_lowered)

lemma News_generateSlug_eq: "News_generateSlug t = take 500 (Category_generateSlug t)"
  by (simp add: News_generateSlug_def Category_generateSlug_def)

lemma set_replaceRuns: "set (replaceRuns s) \<subseteq> {c \<in> set s. \<not> isSep c} \<union> {CHR ''-''}"
proof (induction s rule: replaceRuns.induct)
  case 1
  then show ?case by simp
next
  case (2 c cs)
  show ?case
  proof (cases "isSep c")
    case True
    with 2 show ?thesis by (auto dest: set_dropWhileD)
  next
    case False
    with 2 show ?thesis by auto
  qed
qed

lemma set_stripHyphens: "set (stripHyphens s) \<subseteq> set s"
  by (auto simp: stripHyphens_def dest!: set_dropWhileD)

lemma slug_chars:
  assumes "c \<in> set (Category_generateSlug t)"
  shows "isLowerAlnum c \<or> c = CHR ''-''"
proof -
  from assms have "c \<in> set (replaceRuns (removeSpecial (trim (toLowerCase t))))"
    unfolding Category_generateSlug_def using set_stripHyphens by blast
  then have "c = CHR ''-'' \<or> (c \<in> set (removeSpecial (trim (toLowerCase t))) \<and> \<not> isSep c)"
    using set_replaceRuns by blast
  then show ?thesis
    by (auto simp: removeSpecial_lowered isSep_def)
qed

lemma last_dropWhile: "dropWhile P xs \<noteq> [] \<Longrightarrow> last (dropWhile P xs) = last xs"
  by (induction xs) (auto split: if_splits)

lemma stripHyphens_ends:
  assumes "stripHyphens s \<noteq> []"
  shows "hd (stripHyphens s) \<noteq> CHR ''-'' \<and> last (stripHyphens s) \<noteq> CHR ''-''"
proof -
  define P where "P = (\<lambda>c. c = CHR ''-'')"
  define ys where "ys = dropWhile P s"
  define zs where "zs = dropWhile P (rev ys)"
  have res: "stripHyphens s = rev zs"
    by (simp add: stripHyphens_def zs_def ys_def P_def)
  with assms have zs: "zs \<noteq> []" by simp
  then have "\<not> P (hd zs)" unfolding zs_def by (rule hd_dropWhile)
  then have l: "last (rev zs) \<noteq> CHR ''-''" using zs by (simp add: last_rev P_def)
  have "last zs = last (rev ys)" using zs unfolding zs_def by (rule last_dropWhile)
  moreover have ys: "ys \<noteq> []" using zs unfolding zs_def by auto
  ultimately have "hd (rev zs) = hd ys" using zs by (simp add: hd_rev last_rev)
  moreover have "\<not> P (hd ys)" using ys unfolding ys_def by (rule hd_dropWhile)
  ultimately show ?thesis using l res by (simp add: P_def)
qed

lemma slug_example_1: "Category_generateSlug ''Breaking Tech News!'' = ''breaking-tech-news''"
  by code_simp

lemma slug_example_2: "Category_generateSlug ''  Multi   Space--Title '' = ''multi-space-title''"
  by code_simp

lemma slug_example_3: "News_generateSlug ''Breaking Tech News!'' = ''breaking-tech-news''"
  by code_simp

lemma slug_example_4: "News_generateSlug ''  Multi   Space--Title '' = ''multi-space-title''"
  by code_simp

text \<open>
  Claim C4, as stated: the slug transform strips every character outside a-z, 0-9,
  whitespace and hyphen before it collapses the separators. The code keeps the
  underscore at that step (it is in \<^verbatim>\<open>\w\<close>) and turns it into a hyphen at the next,
  so on \<^verbatim>\<open>a_b\<close> the code returns \<^verbatim>\<open>a-b\<close> where the stated pipeline returns \<^verbatim>\<open>ab\<close>.
\<close>

theorem slugify_spec_counterexample:
  "Category_generateSlug ''a_b'' = ''a-b'' \<and> slugify_spec ''a_b'' = ''ab''"
  by code_simp

text \<open>
  Claim C4, amended: the slug transform is a function of its input that lowercases,
  trims, strips all characters outside a-z, 0-9, underscore, whitespace and hyphen,
  collapses runs of whitespace, underscore and hyphen into a single hyphen and strips
  leading and trailing hyphens; the News variant is the first 500 characters of that
  and the Category variant is all of it. A slug holds only a-z, 0-9 and hyphens, and a
  Category slug neither starts nor ends with a hyphen. The two examples of the
  specification evaluate as it says, for both variants.
\<close>

theorem generateSlug_amended:
  "Category_generateSlug t = slugify_amended t \<and>
   News_generateSlug t = take 500 (slugify_amended t) \<and>
   length (News_generateSlug t) \<le> 500 \<and>
   (\<forall>c \<in> set (Category_generateSlug t). isLowerAlnum c \<or> c = CHR ''-'') \<and>
   (\<forall>c \<in> set (News_generateSlug t). isLowerAlnum c \<or> c = CHR ''-'') \<and>
   (Category_generateSlug t \<noteq> [] \<longrightarrow>
      hd (Category_generateSlug t) \<noteq> CHR ''-'' \<and> last (Category_generateSlug t) \<noteq> CHR ''-'') \<and>
   Category_generateSlug ''Breaking Tech News!'' = ''breaking-tech-news'' \<and>
   News_generateSlug ''Breaking Tech News!'' = ''breaking-tech-news'' \<and>
   Category_generateSlug ''  Multi   Space--Title '' = ''multi-space-title'' \<and>
   News_generateSlug ''  Multi   Space--Title '' = ''multi-space-title''"
proof -
  have chars: "\<forall>c \<in> set (Category_generateSlug t). isLowerAlnum c \<or> c = CHR ''-''"
    using slug_chars by blast
  have "set (News_generateSlug t) \<subseteq> set (Category_generateSlug t)"
    by (simp add: News_generateSlug_eq set_take_subset)
  with chars have chars': "\<forall>c \<in> set (News_generateSlug t). isLowerAlnum c \<or> c = CHR ''-''"
    by blast
  have ends: "Category_generateSlug t \<noteq> [] \<longrightarrow>
      hd (Category_generateSlug t) \<noteq> CHR ''-'' \<and> last (Category_generateSlug t) \<noteq> CHR ''-''"
    unfolding Category_generateSlug_def using stripHyphens_ends by blast
  have len: "length (News_generateSlug t) \<le> 500"
    by (simp add: News_generateSlug_def)
  have eq2: "News_generateSlug t = take 500 (slugify_amended t)"
    by (simp add: News_generateSlug_eq Category_generateSlug_eq)
  show ?thesis
    using chars chars' ends len eq2 Category_generateSlug_eq[of t]
      slug_example_1 slug_example_2 slug_example_3 slug_example_4
    by blast
qed

theorem generateSlug_amended_witness:
  "Category_generateSlug ''Hello_World  2024!'' = ''hello-world-2024'' \<and>
   slugify_amended ''Hello_World  2024!'' = ''hello-world-2024'' \<and>
   News_generateSlug ''Hello_World  2024!'' = ''hello-world-2024''"
proof -
  have a: "Category_generateSlug ''Hello_World  2024!'' = slugify_amended ''Hello_World  2024!''"
    and b: "News_generateSlug ''Hello_World  2024!'' = take 500 (slugify_amended ''Hello_World  2024!'')"
    using generateSlug_amended[of "''Hello_World  2024!''"] by blast+
  have c: "Category_generateSlug ''Hello_World  2024!'' = ''hello-world-2024''"
    by code_simp
  from a c have d: "slugify_amended ''Hello_World  2024!'' = ''hello-world-2024''"
    by simp
  from b d have "News_generateSlug ''Hello_World  2024!'' = ''hello-world-2024''"
    by simp
  with c d show ?thesis by simp
qed

section \<open>Self-protection in the user controller\<close>

lemma validateId_Some: "validateId (Some i) = (if i < 1 then None else Some i)"
  by (simp add: validateId_def)




section \<open>The ownership gate of the news controller\<close>

lemma status_bogus_rejected:
  "newsSchemas_update isUri toInt [(''status'', JStr ''bogus'')] = Inl ''Validation error''"
  by (simp add: newsSchemas_update_def joi_valid_def getp_def)

text \<open>
  Claim C1, as stated: a caller who is neither admin nor editor nor the author is
  answered 403 by the update operation regardless of the validity of the payload. On
  the route the schema is checked before the controller runs: user 4, who is not the
  author of article 1, sends a body whose status is none of the three and is answered
  400.
\<close>

theorem ownership_gate_counterexample:
  "(\<forall>isUri toInt.
      news_put_route (newsSchemas_update isUri toInt) example_db ''2024-02-01 00:00:00''
        \<lparr>cu_id = 4, cu_role = JStr ''user''\<rparr> (Some 1) [(''status'', JStr ''bogus'')] =
      (failure 400 ''Validation error'', example_db)) \<and>
   News_findById example_db 1 = Some (the (News_findById example_db 1)) \<and>
   n_author_id (the (News_findById example_db 1)) = JNum 3"
proof -
  have "news_put_route (newsSchemas_update isUri toInt) example_db ''2024-02-01 00:00:00''
        \<lparr>cu_id = 4, cu_role = JStr ''user''\<rparr> (Some 1) [(''status'', JStr ''bogus'')] =
      (failure 400 ''Validation error'', example_db)" for isUri toInt
    by (simp add: news_put_route_def validateId_Some status_bogus_rejected)
  moreover have "News_findById example_db 1 = Some (the (News_findById example_db 1))"
    by code_simp
  moreover have "n_author_id (the (News_findById example_db 1)) = JNum 3"
    by code_simp
  ultimately show ?thesis by blast
qed

text \<open>
  Claim C1, amended: for an authenticated caller and an existing news article, the
  delete operation, and the update operation on a body that the request schema accepts,
  get past the authorization check exactly when the caller's role is admin or editor or
  the caller's id is the article's author id; otherwise each answers 403 Forbidden
  whatever the accepted body holds (the controller reads the body only after the check),
  and the store is as it was. A body that the schema rejects is answered 400 before the
  check, for every caller.
\<close>

theorem news_ownership_gate:
  assumes "News_findById d i = Some existing" and "1 \<le> i"
  shows "((rs_code (fst (NewsController_updateNews d now user i body)) \<noteq> 403) =
            (cu_role user = JStr ''admin'' \<or> cu_role user = JStr ''editor'' \<or>
             JNum (cu_id user) = n_author_id existing)) \<and>
         ((rs_code (fst (NewsController_deleteNews d user i)) \<noteq> 403) =
            (cu_role user = JStr ''admin'' \<or> cu_role user = JStr ''editor'' \<or>
             JNum (cu_id user) = n_author_id existing)) \<and>
         (\<not> (cu_role user = JStr ''admin'' \<or> cu_role user = JStr ''editor'' \<or>
             JNum (cu_id user) = n_author_id existing) \<longrightarrow>
            NewsController_updateNews d now user i body =
              (failure 403 ''Access denied - you can only edit your own articles'', d) \<and>
            NewsController_deleteNews d user i =
              (failure 403 ''Access denied - you can only delete your own articles'', d)) \<and>
         (\<forall>v. schema body = Inr v \<longrightarrow>
            news_put_route schema d now user (Some i) body = NewsController_updateNews d now user i v) \<and>
         (\<forall>details. schema body = Inl details \<longrightarrow>
            news_put_route schema d now user (Some i) body = (failure 400 ''Validation error'', d)) \<and>
         news_delete_route d user (Some i) = NewsController_deleteNews d user i"
proof -
  have upd: "(rs_code (fst (NewsController_updateNews d now user i body)) \<noteq> 403) =
            (cu_role user = JStr ''admin'' \<or> cu_role user = JStr ''editor'' \<or>
             JNum (cu_id user) = n_author_id existing)"
    using assms(1)
    by (auto simp: NewsController_updateNews_def failure_def success_def
             split: option.splits sum.splits prod.splits if_splits)
  have del: "(rs_code (fst (NewsController_deleteNews d user i)) \<noteq> 403) =
            (cu_role user = JStr ''admin'' \<or> cu_role user = JStr ''editor'' \<or>
             JNum (cu_id user) = n_author_id existing)"
    using assms(1)
    by (auto simp: NewsController_deleteNews_def failure_def success_def
             split: option.splits sum.splits prod.splits if_splits)
  have deny: "\<not> (cu_role user = JStr ''admin'' \<or> cu_role user = JStr ''editor'' \<or>
             JNum (cu_id user) = n_author_id existing) \<longrightarrow>
            NewsController_updateNews d now user i body =
              (failure 403 ''Access denied - you can only edit your own articles'', d) \<and>
            NewsController_deleteNews d user i =
              (failure 403 ''Access denied - you can only delete your own articles'', d)"
    using assms(1)
    by (simp add: NewsController_updateNews_def NewsController_deleteNews_def)
  have put: "(\<forall>v. schema body = Inr v \<longrightarrow>
            news_put_route schema d now user (Some i) body = NewsController_updateNews d now user i v) \<and>
         (\<forall>details. schema body = Inl details \<longrightarrow>
            news_put_route schema d now user (Some i) body = (failure 400 ''Validation error'', d))"
    using assms(2) by (simp add: news_put_route_def validateId_Some)
  have dlt: "news_delete_route d user (Some i) = NewsController_deleteNews d user i"
    using assms(2) by (simp add: news_delete_route_def validateId_Some)
  from upd del deny put dlt show ?thesis by blast
qed

theorem news_ownership_gate_witness:
  "(\<forall>isUri toInt.
      news_put_route (newsSchemas_update isUri toInt) example_db ''2024-02-01 00:00:00''
        \<lparr>cu_id = 4, cu_role = JStr ''user''\<rparr> (Some 1) [(''category_id'', JNum 99)] =
      (failure 403 ''Access denied - you can only edit your own articles'', example_db)) \<and>
   news_delete_route example_db \<lparr>cu_id = 4, cu_role = JStr ''user''\<rparr> (Some 1) =
     (failure 403 ''Access denied - you can only delete your own articles'', example_db) \<and>
   rs_code (fst (NewsController_updateNews example_db ''2024-02-01 00:00:00''
      \<lparr>cu_id = 3, cu_role = JStr ''user''\<rparr> 1 [(''category_id'', JNum 99)])) \<noteq> 403 \<and>
   rs_code (fst (NewsController_deleteNews example_db \<lparr>cu_id = 2, cu_role = JStr ''editor''\<rparr> 1)) \<noteq> 403"
proof -
  let ?body = "[(''category_id'', JNum 99)]"
  have found: "News_findById example_db 1 = Some (the (News_findById example_db 1))"
    by code_simp
  have id: "(1::int) \<le> 1" by simp
  have author: "n_author_id (the (News_findById example_db 1)) = JNum 3"
    by code_simp
  have accepted: "newsSchemas_update isUri toInt ?body = Inr ?body" for isUri toInt
    by (simp add: newsSchemas_update_def joi_string_def joi_uri_def joi_valid_def
          joi_positive_integer_def getp_def)
  have a: "news_put_route (newsSchemas_update isUri toInt) example_db ''2024-02-01 00:00:00''
      \<lparr>cu_id = 4, cu_role = JStr ''user''\<rparr> (Some 1) ?body =
     (failure 403 ''Access denied - you can only edit your own articles'', example_db)"
    for isUri toInt
    using news_ownership_gate[OF found id, where now = "''2024-02-01 00:00:00''"
            and user = "\<lparr>cu_id = 4, cu_role = JStr ''user''\<rparr>" and body = ?body
            and schema = "newsSchemas_update isUri toInt"]
      accepted[of isUri toInt] author
    by simp
  note bob = news_ownership_gate[OF found id, where now = "''2024-02-01 00:00:00''"
            and user = "\<lparr>cu_id = 4, cu_role = JStr ''user''\<rparr>" and body = ?body and schema = Inr]
  note alice = news_ownership_gate[OF found id, where now = "''2024-02-01 00:00:00''"
            and user = "\<lparr>cu_id = 3, cu_role = JStr ''user''\<rparr>" and body = ?body and schema = Inr]
  note edith = news_ownership_gate[OF found id, where now = "''2024-02-01 00:00:00''"
            and user = "\<lparr>cu_id = 2, cu_role = JStr ''editor''\<rparr>" and body = ?body and schema = Inr]
  have b: "news_delete_route example_db \<lparr>cu_id = 4, cu_role = JStr ''user''\<rparr> (Some 1) =
     (failure 403 ''Access denied - you can only delete your own articles'', example_db)"
    using bob author by simp
  have c: "rs_code (fst (NewsController_updateNews example_db ''2024-02-01 00:00:00''
      \<lparr>cu_id = 3, cu_role = JStr ''user''\<rparr> 1 ?body)) \<noteq> 403"
    using alice author by simp
  have e: "rs_code (fst (NewsController_deleteNews example_db \<lparr>cu_id = 2, cu_role = JStr ''editor''\<rparr> 1)) \<noteq> 403"
    using edith by simp
  from a b c e show ?thesis by blast
qed

section \<open>The guard of the category delete\<close>

lemma set_left_join:
  "set (case ns of [] \<Rightarrow> [(c, None)] | ms \<Rightarrow> map (\<lambda>n. (c, Some n)) ms) =
     (if ns = [] then {(c, None)} else (\<lambda>n. (c, Some n)) ` set ns)"
  by (cases ns) auto

lemma cat_news_join_iff:
  "(c, x) \<in> set (cat_news_join d) \<longleftrightarrow>
     c \<in> set (categories d) \<and>
     (case x of None \<Rightarrow> \<not> (\<exists>n \<in> set (news d). n_category_id n = JNum (c_id c))
              | Some n \<Rightarrow> n \<in> set (news d) \<and> n_category_id n = JNum (c_id c))"
  unfolding cat_news_join_def set_concat set_map image_image set_left_join
  by (auto simp: filter_empty_conv split: option.splits if_splits)

lemma getOne_None: "getOne xs = None \<longleftrightarrow> xs = []"
  by (cases xs) (auto simp: getOne_def)

lemma getOne_Some: "getOne xs = Some x \<Longrightarrow> x \<in> set xs"
  by (cases xs) (auto simp: getOne_def)

lemma group_count_empty: "group_count rows = [] \<longleftrightarrow> rows = []"
  by (simp add: group_count_def)

lemma findByIdWithNewsCount_None:
  "Category_findByIdWithNewsCount d i = None \<longleftrightarrow> \<not> (\<exists>c \<in> set (categories d). c_id c = i)"
proof -
  have "Category_findByIdWithNewsCount d i = None \<longleftrightarrow>
        filter (\<lambda>x. c_id (fst x) = i) (cat_news_join d) = []"
    by (simp add: Category_findByIdWithNewsCount_def getOne_None group_count_empty)
  also have "\<dots> \<longleftrightarrow> \<not> (\<exists>x \<in> set (cat_news_join d). c_id (fst x) = i)"
    by (auto simp: filter_empty_conv)
  also have "\<dots> \<longleftrightarrow> \<not> (\<exists>c \<in> set (categories d). c_id c = i)"
  proof -
    have "(\<exists>x \<in> set (cat_news_join d). c_id (fst x) = i) \<longleftrightarrow> (\<exists>c \<in> set (categories d). c_id c = i)"
    proof
      assume "\<exists>x \<in> set (cat_news_join d). c_id (fst x) = i"
      then obtain c y where "(c, y) \<in> set (cat_news_join d)" "c_id c = i" by auto
      then show "\<exists>c \<in> set (categories d). c_id c = i"
        using cat_news_join_iff by blast
    next
      assume "\<exists>c \<in> set (categories d). c_id c = i"
      then obtain c where c: "c \<in> set (categories d)" "c_id c = i" by blast
      show "\<exists>x \<in> set (cat_news_join d). c_id (fst x) = i"
      proof (cases "\<exists>n \<in> set (news d). n_category_id n = JNum (c_id c)")
        case True
        then obtain n where "n \<in> set (news d)" "n_category_id n = JNum (c_id c)" by blast
        with c have "(c, Some n) \<in> set (cat_news_join d)" by (simp add: cat_news_join_iff)
        with c show ?thesis by force
      next
        case False
        with c have "(c, None) \<in> set (cat_news_join d)" by (simp add: cat_news_join_iff)
        with c show ?thesis by force
      qed
    qed
    then show ?thesis by simp
  qed
  finally show ?thesis .
qed

lemma findByIdWithNewsCount_Some:
  assumes "Category_findByIdWithNewsCount d i = Some cv"
  shows "(0 < v_news_count cv) \<longleftrightarrow> (\<exists>n \<in> set (news d). n_category_id n = JNum i)"
proof -
  define rows where "rows = filter (\<lambda>x. c_id (fst x) = i) (cat_news_join d)"
  from assms have "cv \<in> set (group_count rows)"
    unfolding Category_findByIdWithNewsCount_def rows_def by (rule getOne_Some)
  then obtain c where c: "c \<in> fst ` set rows"
    and cv: "cv = category_row.extend c
               (category_view.fields (int (length (filter (\<lambda>x. fst x = c \<and> snd x \<noteq> None) rows))))"
    unfolding group_count_def by auto
  have cnt: "v_news_count cv = int (length (filter (\<lambda>x. fst x = c \<and> snd x \<noteq> None) rows))"
    unfolding cv by (simp add: category_row.defs category_view.defs)
  from c obtain y where y: "(c, y) \<in> set (cat_news_join d)" and ci: "c_id c = i"
    by (auto simp: rows_def)
  then have cin: "c \<in> set (categories d)" using cat_news_join_iff by blast
  have "(0 < v_news_count cv) \<longleftrightarrow> (\<exists>x \<in> set rows. fst x = c \<and> snd x \<noteq> None)"
    unfolding cnt by (auto simp: filter_empty_conv length_greater_0_conv)
  also have "\<dots> \<longleftrightarrow> (\<exists>n. (c, Some n) \<in> set (cat_news_join d))"
    using ci by (auto simp: rows_def) 
  also have "\<dots> \<longleftrightarrow> (\<exists>n \<in> set (news d). n_category_id n = JNum i)"
    using cin ci by (auto simp: cat_news_join_iff)
  finally show ?thesis .
qed

lemma associated_news_pos:
  "0 < length (associated_news d i) \<longleftrightarrow> (\<exists>n \<in> set (news d). n_category_id n = JNum i)"
  by (auto simp: associated_news_def filter_empty_conv)

lemma Category_deleteById_fst:
  "fst (Category_deleteById d i) \<longleftrightarrow> (\<exists>c \<in> set (categories d). c_id c = i)"
  by (auto simp: Category_deleteById_def Let_def filter_empty_conv)

lemma deleteCategory_guard:
  "(rs_code (fst (CategoryController_deleteCategory d user i)) = 200 \<longrightarrow>
      length (associated_news d i) = 0) \<and>
   ((\<exists>c \<in> set (categories d). c_id c = i) \<and> 0 < length (associated_news d i) \<longrightarrow>
      rs_code (fst (CategoryController_deleteCategory d user i)) = 400 \<and>
      rs_status (fst (CategoryController_deleteCategory d user i)) = ''error'' \<and>
      snd (CategoryController_deleteCategory d user i) = d) \<and>
   ((\<exists>c \<in> set (categories d). c_id c = i) \<and> length (associated_news d i) = 0 \<longrightarrow>
      rs_code (fst (CategoryController_deleteCategory d user i)) = 200 \<and>
      categories (snd (CategoryController_deleteCategory d user i)) =
        filter (\<lambda>c. c_id c \<noteq> i) (categories d))"
proof (cases "Category_findByIdWithNewsCount d i")
  case None
  then have "\<not> (\<exists>c \<in> set (categories d). c_id c = i)"
    by (simp add: findByIdWithNewsCount_None)
  with None show ?thesis
    by (simp add: CategoryController_deleteCategory_def failure_def Category_deleteById_fst)
next
  case (Some cv)
  then have ex: "\<exists>c \<in> set (categories d). c_id c = i"
    using findByIdWithNewsCount_None[of d i] by auto
  have cnt: "(0 < v_news_count cv) \<longleftrightarrow> 0 < length (associated_news d i)"
    using findByIdWithNewsCount_Some[OF Some] associated_news_pos[of d i] by blast
  show ?thesis
  proof (cases "0 < v_news_count cv")
    case True
    with Some cnt show ?thesis
      by (simp add: CategoryController_deleteCategory_def failure_def Category_deleteById_fst)
  next
    case False
    with cnt have zero: "length (associated_news d i) = 0" by simp
    from ex have del: "fst (Category_deleteById d i)" by (simp add: Category_deleteById_fst)
    then have "categories (snd (Category_deleteById d i)) = filter (\<lambda>c. c_id c \<noteq> i) (categories d)"
      by (auto simp: Category_deleteById_def Let_def)
    moreover obtain b d' where bd: "Category_deleteById d i = (b, d')"
      by (cases "Category_deleteById d i")
    ultimately have "b" "categories d' = filter (\<lambda>c. c_id c \<noteq> i) (categories d)"
      using del by simp_all
    with Some False zero ex bd show ?thesis
      using Category_deleteById_fst[of d i]
      by (simp add: CategoryController_deleteCategory_def success_def)
  qed
qed

lemma categories_delete_route_cases:
  "categories_delete_route d user (Some i) = CategoryController_deleteCategory d user i \<or>
   (rs_code (fst (categories_delete_route d user (Some i))) \<noteq> 200 \<and>
    rs_status (fst (categories_delete_route d user (Some i))) = ''error'' \<and>
    snd (categories_delete_route d user (Some i)) = d)"
proof (cases "authorize [''admin''] user \<and> \<not> i < 1")
  case True
  then have "categories_delete_route d user (Some i) = CategoryController_deleteCategory d user i"
    by (simp add: categories_delete_route_def validateId_Some)
  then show ?thesis by (rule disjI1)
next
  case False
  then have "categories_delete_route d user (Some i) =
               (failure 403 ''Access denied - insufficient permissions'', d) \<or>
             categories_delete_route d user (Some i) = (failure 400 ''Invalid ID parameter'', d)"
    by (auto simp: categories_delete_route_def validateId_Some)
  then have "rs_code (fst (categories_delete_route d user (Some i))) \<noteq> 200 \<and>
    rs_status (fst (categories_delete_route d user (Some i))) = ''error'' \<and>
    snd (categories_delete_route d user (Some i)) = d"
    by (auto simp: failure_def)
  then show ?thesis by (rule disjI2)
qed

text \<open>
  Claim C6: the category delete operation answers success only when no news article is
  associated with the category; when the category exists and has associated news, it
  answers an error (the controller 400) and the store is as it was. When it exists and
  has none, the controller deletes the row. The guard is the controller's:
  \<^verbatim>\<open>Category.deleteById\<close> itself deletes whenever the row exists.
\<close>

theorem category_delete_guard:
  "(rs_code (fst (CategoryController_deleteCategory d user i)) = 200 \<longrightarrow>
      length (associated_news d i) = 0) \<and>
   ((\<exists>c \<in> set (categories d). c_id c = i) \<and> 0 < length (associated_news d i) \<longrightarrow>
      rs_code (fst (CategoryController_deleteCategory d user i)) = 400 \<and>
      rs_status (fst (CategoryController_deleteCategory d user i)) = ''error'' \<and>
      snd (CategoryController_deleteCategory d user i) = d) \<and>
   ((\<exists>c \<in> set (categories d). c_id c = i) \<and> length (associated_news d i) = 0 \<longrightarrow>
      rs_code (fst (CategoryController_deleteCategory d user i)) = 200 \<and>
      categories (snd (CategoryController_deleteCategory d user i)) =
        filter (\<lambda>c. c_id c \<noteq> i) (categories d)) \<and>
   (rs_code (fst (categories_delete_route d user (Some i))) = 200 \<longrightarrow>
      length (associated_news d i) = 0) \<and>
   ((\<exists>c \<in> set (categories d). c_id c = i) \<and> 0 < length (associated_news d i) \<longrightarrow>
      rs_status (fst (categories_delete_route d user (Some i))) = ''error'' \<and>
      snd (categories_delete_route d user (Some i)) = d) \<and>
   (fst (Category_deleteById d i) \<longleftrightarrow> (\<exists>c \<in> set (categories d). c_id c = i))"
proof -
  note ctl = deleteCategory_guard[of d user i]
  have route: "(rs_code (fst (categories_delete_route d user (Some i))) = 200 \<longrightarrow>
      length (associated_news d i) = 0) \<and>
   ((\<exists>c \<in> set (categories d). c_id c = i) \<and> 0 < length (associated_news d i) \<longrightarrow>
      rs_status (fst (categories_delete_route d user (Some i))) = ''error'' \<and>
      snd (categories_delete_route d user (Some i)) = d)"
  proof (cases "categories_delete_route d user (Some i) = CategoryController_deleteCategory d user i")
    case True
    show ?thesis unfolding True using ctl by blast
  next
    case False
    with categories_delete_route_cases[of d user i] show ?thesis by blast
  qed
  from ctl route Category_deleteById_fst[of d i] show ?thesis by blast
qed

theorem category_delete_guard_witness:
  "rs_code (fst (CategoryController_deleteCategory example_db \<lparr>cu_id = 1, cu_role = JStr ''admin''\<rparr> 1)) = 400 \<and>
   snd (CategoryController_deleteCategory example_db \<lparr>cu_id = 1, cu_role = JStr ''admin''\<rparr> 1) = example_db \<and>
   snd (categories_delete_route example_db \<lparr>cu_id = 1, cu_role = JStr ''admin''\<rparr> (Some 1)) = example_db \<and>
   rs_code (fst (CategoryController_deleteCategory example_db \<lparr>cu_id = 1, cu_role = JStr ''admin''\<rparr> 2)) = 200 \<and>
   length (associated_news example_db 2) = 0"
proof -
  have one: "(\<exists>c \<in> set (categories example_db). c_id c = 1) \<and> 0 < length (associated_news example_db 1)"
    by code_simp
  have two: "(\<exists>c \<in> set (categories example_db). c_id c = 2) \<and> length (associated_news example_db 2) = 0"
    by code_simp
  show ?thesis
    using one two
      category_delete_guard[of example_db "\<lparr>cu_id = 1, cu_role = JStr ''admin''\<rparr>" 1]
      category_delete_guard[of example_db "\<lparr>cu_id = 1, cu_role = JStr ''admin''\<rparr>" 2]
    by blast
qed

section \<open>Reading news through the joins\<close>

lemma truncate_mk_view: "news_row.truncate (mk_view n c u) = n"
  by (simp add: mk_view_def news_row.defs)

lemma truncate_sel:
  "n_id (news_row.truncate v) = n_id v"
  "n_title (news_row.truncate v) = n_title v"
  "n_content (news_row.truncate v) = n_content v"
  "n_summary (news_row.truncate v) = n_summary v"
  "n_slug (news_row.truncate v) = n_slug v"
  "n_featured_image (news_row.truncate v) = n_featured_image v"
  "n_status (news_row.truncate v) = n_status v"
  "n_category_id (news_row.truncate v) = n_category_id v"
  "n_author_id (news_row.truncate v) = n_author_id v"
  "n_published_at (news_row.truncate v) = n_published_at v"
  "n_created_at (news_row.truncate v) = n_created_at v"
  "n_updated_at (news_row.truncate v) = n_updated_at v"
  by (simp_all add: news_row.defs)

lemma join_category_nonempty: "join_category d n \<noteq> []"
  by (simp add: join_category_def split: list.splits)

lemma join_author_nonempty: "join_author d n \<noteq> []"
  by (simp add: join_author_def split: list.splits)

lemma set_news_joined:
  "set (news_joined d) =
     {mk_view n c u | n c u. n \<in> set (news d) \<and> c \<in> set (join_category d n) \<and> u \<in> set (join_author d n)}"
  by (auto simp: news_joined_def)

lemma news_joined_truncate: "news_row.truncate ` set (news_joined d) = set (news d)"
proof
  show "news_row.truncate ` set (news_joined d) \<subseteq> set (news d)"
    by (auto simp: set_news_joined truncate_mk_view)
next
  show "set (news d) \<subseteq> news_row.truncate ` set (news_joined d)"
  proof
    fix n assume n: "n \<in> set (news d)"
    obtain c where c: "c \<in> set (join_category d n)"
      using join_category_nonempty[of d n] by (cases "join_category d n") auto
    obtain u where u: "u \<in> set (join_author d n)"
      using join_author_nonempty[of d n] by (cases "join_author d n") auto
    from n c u have "mk_view n c u \<in> set (news_joined d)"
      unfolding set_news_joined by blast
    then have "news_row.truncate (mk_view n c u) \<in> news_row.truncate ` set (news_joined d)"
      by (rule imageI)
    then show "n \<in> news_row.truncate ` set (news_joined d)"
      by (simp add: truncate_mk_view)
  qed
qed

lemma News_findById_Some:
  assumes "News_findById d i = Some v"
  shows "news_row.truncate v \<in> set (news d) \<and> n_id v = i"
proof -
  from assms have "v \<in> set (filter (\<lambda>v. n_id v = i) (news_joined d))"
    unfolding News_findById_def by (rule getOne_Some)
  then have "v \<in> set (news_joined d)" "n_id v = i" by auto
  then show ?thesis using news_joined_truncate[of d] by blast
qed

lemma News_findById_None:
  "News_findById d i = None \<longleftrightarrow> \<not> (\<exists>n \<in> set (news d). n_id n = i)"
proof -
  have "News_findById d i = None \<longleftrightarrow> \<not> (\<exists>v \<in> set (news_joined d). n_id v = i)"
    by (auto simp: News_findById_def getOne_None filter_empty_conv)
  also have "\<dots> \<longleftrightarrow> \<not> (\<exists>n \<in> news_row.truncate ` set (news_joined d). n_id n = i)"
    by (simp add: truncate_sel)
  finally show ?thesis by (simp add: news_joined_truncate)
qed

section \<open>Creating news\<close>

lemma fold_max_ge: "(a::int) \<le> fold max xs a \<and> (\<forall>x \<in> set xs. x \<le> fold max xs a)"
proof (induction xs arbitrary: a)
  case Nil
  then show ?case by simp
next
  case (Cons y ys)
  have "max y a \<le> fold max ys (max y a)" "\<forall>x \<in> set ys. x \<le> fold max ys (max y a)"
    using Cons.IH[of "max y a"] by auto
  then show ?case by auto
qed

lemma next_id_fresh: "r \<in> set rows \<Longrightarrow> f r < next_id s (map f rows)"
  using fold_max_ge[of "max s 0" "map f rows"] by (fastforce simp: next_id_def)

lemma insert_news_Inr:
  assumes "insert_news d now title content summary slug featured_image status category_id author_id
             = Inr (i, d')"
  shows "\<exists>r. d' = d\<lparr>news := news d @ [r], news_seq := i\<rparr> \<and>
             n_id r = i \<and> i = next_id (news_seq d) (map n_id (news d)) \<and>
             n_published_at r = JNull \<and> n_status r = bind_param status"
  using assms by (auto simp: insert_news_def Let_def split: if_splits)

lemma findById_inserted:
  assumes "n_id r = next_id s (map n_id (news d))"
  shows "\<exists>v. News_findById (d\<lparr>news := news d @ [r], news_seq := k\<rparr>) (n_id r) = Some v \<and>
             news_row.truncate v = r"
proof -
  let ?d' = "d\<lparr>news := news d @ [r], news_seq := k\<rparr>"
  have "News_findById ?d' (n_id r) \<noteq> None"
    by (simp add: News_findById_None)
  then obtain v where v: "News_findById ?d' (n_id r) = Some v" by blast
  then have "news_row.truncate v \<in> set (news ?d')" "n_id v = n_id r"
    using News_findById_Some by blast+
  moreover have "x \<in> set (news d) \<Longrightarrow> n_id x \<noteq> n_id r" for x
    using next_id_fresh[of x "news d" n_id s] assms by simp
  ultimately have "news_row.truncate v = r"
    using truncate_sel(1)[of v] by auto
  with v show ?thesis by blast
qed

text \<open>
  Claim C9: a news article created with status \<^verbatim>\<open>published\<close>, as with any other input,
  has \<open>published_at\<close> null in the row that is stored and in the row that is returned:
  the insert lists no \<open>published_at\<close> column. A create that throws leaves the store as
  it was.
\<close>

theorem news_create_unpublished:
  "(\<forall>e d'. News_create d now newsData = (Inl e, d') \<longrightarrow> d' = d) \<and>
   (\<forall>res d'. News_create d now newsData = (Inr res, d') \<longrightarrow>
      (\<exists>r v. news d' = news d @ [r] \<and> n_published_at r = JNull \<and>
             n_status r = bind_param (if getp newsData ''status'' = Undefined then JStr ''draft''
                                      else getp newsData ''status'') \<and>
             res = Some v \<and> news_row.truncate v = r \<and> n_published_at v = JNull))"
proof (intro conjI allI impI)
  fix e d' assume "News_create d now newsData = (Inl e, d')"
  then show "d' = d"
    by (auto simp: News_create_def Let_def split: sum.splits prod.splits)
next
  fix res d' assume run: "News_create d now newsData = (Inr res, d')"
  let ?status = "if getp newsData ''status'' = Undefined then JStr ''draft''
                 else getp newsData ''status''"
  from run obtain finalSlug i where
    ins: "insert_news d now (getp newsData ''title'') (getp newsData ''content'')
            (getp newsData ''summary'') finalSlug (getp newsData ''featured_image'') ?status
            (getp newsData ''category_id'') (getp newsData ''author_id'') = Inr (i, d')"
    and res: "res = News_findById d' i"
    by (auto simp: News_create_def Let_def split: sum.splits prod.splits)
  from insert_news_Inr[OF ins] obtain r where
    r: "d' = d\<lparr>news := news d @ [r], news_seq := i\<rparr>" "n_id r = i"
       "i = next_id (news_seq d) (map n_id (news d))"
       "n_published_at r = JNull" "n_status r = bind_param ?status"
    by blast
  from r(2,3) have "n_id r = next_id (news_seq d) (map n_id (news d))" by simp
  from findById_inserted[OF this, of i] obtain v where
    v: "News_findById d' i = Some v" "news_row.truncate v = r"
    using r(1,2) by auto
  then have "n_published_at v = JNull"
    using r(4) truncate_sel(10)[of v] by simp
  with r v res show "\<exists>r v. news d' = news d @ [r] \<and> n_published_at r = JNull \<and>
             n_status r = bind_param ?status \<and>
             res = Some v \<and> news_row.truncate v = r \<and> n_published_at v = JNull"
    by simp
qed

theorem news_create_unpublished_witness:
  "n_status (last (news (snd (News_create example_db ''2024-02-01 00:00:00''
      [(''title'', JStr ''Third  Post''), (''content'', JStr ''c''),
       (''status'', JStr ''published''), (''author_id'', JNum 3)])))) = JStr ''published'' \<and>
   n_published_at (last (news (snd (News_create example_db ''2024-02-01 00:00:00''
      [(''title'', JStr ''Third  Post''), (''content'', JStr ''c''),
       (''status'', JStr ''published''), (''author_id'', JNum 3)])))) = JNull"
proof -
  let ?x = "News_create example_db ''2024-02-01 00:00:00''
      [(''title'', JStr ''Third  Post''), (''content'', JStr ''c''),
       (''status'', JStr ''published''), (''author_id'', JNum 3)]"
  have ran: "?x = (Inr (projr (fst ?x)), snd ?x)"
    by code_simp
  have "\<exists>r v. news (snd ?x) = news example_db @ [r] \<and> n_published_at r = JNull \<and>
          n_status r = bind_param (if getp [(''title'', JStr ''Third  Post''), (''content'', JStr ''c''),
       (''status'', JStr ''published''), (''author_id'', JNum 3)] ''status'' = Undefined then JStr ''draft''
                                   else getp [(''title'', JStr ''Third  Post''), (''content'', JStr ''c''),
       (''status'', JStr ''published''), (''author_id'', JNum 3)] ''status'') \<and>
          projr (fst ?x) = Some v \<and> news_row.truncate v = r \<and> n_published_at v = JNull"
    using news_create_unpublished[of example_db "''2024-02-01 00:00:00''"
      "[(''title'', JStr ''Third  Post''), (''content'', JStr ''c''),
       (''status'', JStr ''published''), (''author_id'', JNum 3)]"] ran
    by blast
  then show ?thesis
    by (auto simp: getp_def)
qed

section \<open>Updating news\<close>

lemma getOne_append: "getOne (xs @ ys) = (case getOne xs of None \<Rightarrow> getOne ys | Some x \<Rightarrow> Some x)"
  by (cases xs) (auto simp: getOne_def)

lemma getOne_filter_all:
  "xs \<noteq> [] \<Longrightarrow> \<forall>x \<in> set xs. P x \<Longrightarrow> \<exists>x \<in> set xs. getOne (filter P xs) = Some x"
  by (cases xs) (auto simp: getOne_def)

lemma getOne_filter_none:
  "\<forall>x \<in> set xs. \<not> P x \<Longrightarrow> getOne (filter P xs) = None"
  by (simp add: getOne_None filter_empty_conv)

lemma getOne_concat_find:
  assumes "\<And>n. g n \<noteq> []" and "\<And>n y. y \<in> set (g n) \<Longrightarrow> news_row.truncate y = n"
  shows "map_option news_row.truncate (getOne (filter (\<lambda>v. n_id v = i) (concat (map g ns))))
           = find (\<lambda>n. n_id n = i) ns"
proof (induction ns)
  case Nil
  then show ?case by (simp add: getOne_def)
next
  case (Cons n ns)
  show ?case
  proof (cases "n_id n = i")
    case True
    have "\<forall>y \<in> set (g n). n_id y = i"
      using assms(2)[of _ n] True truncate_sel(1) by metis
    with assms(1)[of n] obtain y where "y \<in> set (g n)"
      "getOne (filter (\<lambda>v. n_id v = i) (g n)) = Some y"
      using getOne_filter_all[of "g n" "\<lambda>v. n_id v = i"] by blast
    with True assms(2)[of y n] show ?thesis
      by (simp add: getOne_append)
  next
    case False
    have "\<forall>y \<in> set (g n). \<not> n_id y = i"
      using assms(2)[of _ n] False truncate_sel(1) by metis
    then have "getOne (filter (\<lambda>v. n_id v = i) (g n)) = None"
      by (rule getOne_filter_none)
    with False Cons.IH show ?thesis
      by (simp add: getOne_append)
  qed
qed

lemma News_findById_find:
  "map_option news_row.truncate (News_findById d i) = find (\<lambda>n. n_id n = i) (news d)"
  unfolding News_findById_def news_joined_def
proof (rule getOne_concat_find)
  fix n
  show "concat (map (\<lambda>c. map (mk_view n c) (join_author d n)) (join_category d n)) \<noteq> []"
    using join_category_nonempty[of d n] join_author_nonempty[of d n]
    by (cases "join_category d n") auto
next
  fix n y
  assume "y \<in> set (concat (map (\<lambda>c. map (mk_view n c) (join_author d n)) (join_category d n)))"
  then show "news_row.truncate y = n"
    by (auto simp: truncate_mk_view)
qed

lemma find_map_same_id:
  assumes "\<And>r. n_id (f r) = n_id r"
  shows "find (\<lambda>n. n_id n = i) (map f rows) = map_option f (find (\<lambda>n. n_id n = i) rows)"
  by (induction rows) (auto simp: assms)

lemma update_news_Inr:
  "update_news d assigns i = Inr d' \<Longrightarrow>
     d' = d\<lparr>news := map (\<lambda>r. if n_id r = i then fold set_news_column assigns r else r) (news d)\<rparr>"
  by (auto simp: update_news_def Let_def split: if_splits)

lemma set_news_column_id: "n_id (set_news_column a r) = n_id r"
  by (simp add: set_news_column_def Let_def)

lemma fold_set_news_column_id: "n_id (fold set_news_column as r) = n_id r"
  by (induction as arbitrary: r) (simp_all add: set_news_column_id)

lemma set_news_column_published_at:
  "n_published_at (set_news_column a r) = (if fst a = ''published_at'' then snd a else n_published_at r)"
  by (simp add: set_news_column_def Let_def)

lemma fold_published_at_untouched:
  "\<forall>a \<in> set as. fst a \<noteq> ''published_at'' \<Longrightarrow>
     n_published_at (fold set_news_column as r) = n_published_at r"
  by (induction as arbitrary: r) (simp_all add: set_news_column_published_at)

lemma allowed_assignments_keys:
  "a \<in> set (allowed_assignments allowedFields updateData) \<Longrightarrow> fst a \<in> set allowedFields"
  by (auto simp: allowed_assignments_def)

lemma News_allowed_not_published_at:
  "\<forall>a \<in> set (allowed_assignments News_allowedFields updateData). fst a \<noteq> ''published_at''"
proof
  fix a assume "a \<in> set (allowed_assignments News_allowedFields updateData)"
  then have "fst a \<in> set News_allowedFields" by (rule allowed_assignments_keys)
  then show "fst a \<noteq> ''published_at''" by (auto simp: News_allowedFields_def)
qed

lemma News_updateById_Inr:
  assumes "News_updateById d now i updateData = (Inr res, d')"
  shows "d' = d\<lparr>news := map (\<lambda>r. if n_id r = i
                  then fold set_news_column
                         (allowed_assignments News_allowedFields updateData @
                          published_at_stamp now updateData @ [(''updated_at'', JStr now)]) r
                  else r) (news d)\<rparr> \<and>
         res = News_findById d' i"
  using assms
  by (auto simp: News_updateById_def Let_def
           split: if_splits sum.splits dest!: update_news_Inr)

lemma published_at_after:
  "n_published_at (fold set_news_column
       (allowed_assignments News_allowedFields updateData @
        published_at_stamp now updateData @ [(''updated_at'', JStr now)]) r) =
     (if getp updateData ''status'' = JStr ''published'' then JStr now
      else if truthy (getp updateData ''status'') then JNull
      else n_published_at r)"
  using News_allowed_not_published_at[of updateData]
  by (auto simp: published_at_stamp_def set_news_column_published_at fold_published_at_untouched)

lemma getp_absent: "k \<notin> fst ` set ob \<Longrightarrow> getp ob k = Undefined"
  by (simp add: getp_def map_of_eq_None_iff[THEN iffD2])

text \<open>
  Claim C3: when an update of a news article succeeds, a payload whose status is
  \<^verbatim>\<open>published\<close> leaves the article with \<open>published_at\<close> set to the timestamp of the
  update, which is not null; a payload whose status is another status (\<^verbatim>\<open>draft\<close>,
  \<^verbatim>\<open>archived\<close>) leaves it with \<open>published_at\<close> null; a payload without a status field
  leaves every \<open>published_at\<close> as it was. This holds of the stored row and of the row
  the update returns, and an existing article always has a returned row.
\<close>

theorem news_update_published_at:
  assumes "News_updateById d now i updateData = (Inr res, d')"
  shows
  "(getp updateData ''status'' = JStr ''published'' \<longrightarrow>
      (\<forall>r \<in> set (news d'). n_id r = i \<longrightarrow> n_published_at r = JStr now) \<and>
      (\<forall>v. res = Some v \<longrightarrow> n_published_at v = JStr now)) \<and>
   (truthy (getp updateData ''status'') \<and> getp updateData ''status'' \<noteq> JStr ''published'' \<longrightarrow>
      (\<forall>r \<in> set (news d'). n_id r = i \<longrightarrow> n_published_at r = JNull) \<and>
      (\<forall>v. res = Some v \<longrightarrow> n_published_at v = JNull)) \<and>
   (''status'' \<notin> fst ` set updateData \<longrightarrow>
      map n_published_at (news d') = map n_published_at (news d) \<and>
      (\<forall>v old. res = Some v \<and> News_findById d i = Some old \<longrightarrow>
         n_published_at v = n_published_at old)) \<and>
   ((\<exists>r \<in> set (news d). n_id r = i) \<longrightarrow> res \<noteq> None)"
proof -
  define upd where "upd = fold set_news_column
       (allowed_assignments News_allowedFields updateData @
        published_at_stamp now updateData @ [(''updated_at'', JStr now)])"
  define f where "f = (\<lambda>r. if n_id r = i then upd r else r)"
  from News_updateById_Inr[OF assms]
  have d': "news d' = map f (news d)" and res: "res = News_findById d' i"
    by (simp_all add: upd_def f_def)
  have f_id: "n_id (f r) = n_id r" for r
    by (simp add: f_def upd_def fold_set_news_column_id set_news_column_id)
  have pub: "n_published_at (upd r) =
     (if getp updateData ''status'' = JStr ''published'' then JStr now
      else if truthy (getp updateData ''status'') then JNull
      else n_published_at r)" for r
    unfolding upd_def by (rule published_at_after)
  have stored: "n_published_at r = n_published_at (upd r0)"
    if "r \<in> set (news d')" "n_id r = i" "r = f r0" for r r0
    using that f_id[of r0] by (simp add: f_def)
  have rows: "\<exists>r0 \<in> set (news d). r = upd r0" if "r \<in> set (news d')" "n_id r = i" for r
  proof -
    from that(1) obtain r0 where r0: "r0 \<in> set (news d)" "r = f r0"
      by (auto simp: d')
    with that(2) f_id[of r0] have "n_id r0 = i" by simp
    with r0 show ?thesis by (auto simp: f_def)
  qed
  have view: "\<exists>r0 \<in> set (news d). n_published_at v = n_published_at (upd r0)" if "res = Some v" for v
  proof -
    from that res have "News_findById d' i = Some v" by simp
    then have "news_row.truncate v \<in> set (news d')" "n_id (news_row.truncate v) = i"
      using News_findById_Some[of d' i v] by (simp_all add: truncate_sel)
    from rows[OF this] obtain r0 where "r0 \<in> set (news d)" "news_row.truncate v = upd r0"
      by blast
    then show ?thesis using truncate_sel(10)[of v] by metis
  qed
  have c1: "getp updateData ''status'' = JStr ''published'' \<longrightarrow>
      (\<forall>r \<in> set (news d'). n_id r = i \<longrightarrow> n_published_at r = JStr now) \<and>
      (\<forall>v. res = Some v \<longrightarrow> n_published_at v = JStr now)"
    using rows view pub by fastforce
  have c2: "truthy (getp updateData ''status'') \<and> getp updateData ''status'' \<noteq> JStr ''published'' \<longrightarrow>
      (\<forall>r \<in> set (news d'). n_id r = i \<longrightarrow> n_published_at r = JNull) \<and>
      (\<forall>v. res = Some v \<longrightarrow> n_published_at v = JNull)"
    using rows view pub by fastforce
  have c3: "''status'' \<notin> fst ` set updateData \<longrightarrow>
      map n_published_at (news d') = map n_published_at (news d) \<and>
      (\<forall>v old. res = Some v \<and> News_findById d i = Some old \<longrightarrow>
         n_published_at v = n_published_at old)"
  proof
    assume "''status'' \<notin> fst ` set updateData"
    then have "getp updateData ''status'' = Undefined" by (rule getp_absent)
    with pub have same: "n_published_at (f r) = n_published_at r" for r
      by (simp add: f_def)
    then have m: "map n_published_at (news d') = map n_published_at (news d)"
      by (simp add: d')
    have "n_published_at v = n_published_at old"
      if "res = Some v" "News_findById d i = Some old" for v old
    proof -
      have "find (\<lambda>n. n_id n = i) (news d') = map_option f (find (\<lambda>n. n_id n = i) (news d))"
        unfolding d' using f_id by (rule find_map_same_id)
      moreover have "find (\<lambda>n. n_id n = i) (news d') = Some (news_row.truncate v)"
        using News_findById_find[of d' i] that(1) res by simp
      moreover have "find (\<lambda>n. n_id n = i) (news d) = Some (news_row.truncate old)"
        using News_findById_find[of d i] that(2) by simp
      ultimately have "news_row.truncate v = f (news_row.truncate old)" by simp
      then have "n_published_at (news_row.truncate v) = n_published_at (news_row.truncate old)"
        using same by simp
      then show ?thesis by (simp add: truncate_sel)
    qed
    with m show "map n_published_at (news d') = map n_published_at (news d) \<and>
      (\<forall>v old. res = Some v \<and> News_findById d i = Some old \<longrightarrow>
         n_published_at v = n_published_at old)"
      by blast
  qed
  have c4: "(\<exists>r \<in> set (news d). n_id r = i) \<longrightarrow> res \<noteq> None"
  proof
    assume "\<exists>r \<in> set (news d). n_id r = i"
    then obtain r where "r \<in> set (news d)" "n_id r = i" by blast
    then have "f r \<in> set (news d')" "n_id (f r) = i"
      using f_id[of r] by (simp_all add: d')
    then show "res \<noteq> None"
      unfolding res using News_findById_None[of d' i] by blast
  qed
  from c1 c2 c3 c4 show ?thesis by blast
qed

theorem news_update_published_at_witness:
  "n_published_at (hd (news (snd (News_updateById example_db ''2024-02-01 00:00:00'' 1
       [(''status'', JStr ''published'')])))) = JStr ''2024-02-01 00:00:00'' \<and>
   n_published_at (hd (news (snd (News_updateById
       (snd (News_updateById example_db ''2024-02-01 00:00:00'' 1 [(''status'', JStr ''published'')]))
       ''2024-03-01 00:00:00'' 1 [(''status'', JStr ''archived'')])))) = JNull \<and>
   map n_published_at (news (snd (News_updateById example_db ''2024-02-01 00:00:00'' 2
       [(''title'', JStr ''Renamed'')]))) = map n_published_at (news example_db)"
proof -
  let ?p1 = "[(''status'', JStr ''published'')]"
  let ?x1 = "News_updateById example_db ''2024-02-01 00:00:00'' 1 ?p1"
  let ?p2 = "[(''status'', JStr ''archived'')]"
  let ?x2 = "News_updateById (snd ?x1) ''2024-03-01 00:00:00'' 1 ?p2"
  let ?p3 = "[(''title'', JStr ''Renamed'')]"
  let ?x3 = "News_updateById example_db ''2024-02-01 00:00:00'' 2 ?p3"
  have ran1: "?x1 = (Inr (projr (fst ?x1)), snd ?x1)" by code_simp
  have ran2: "?x2 = (Inr (projr (fst ?x2)), snd ?x2)" by code_simp
  have ran3: "?x3 = (Inr (projr (fst ?x3)), snd ?x3)" by code_simp
  have s1: "getp ?p1 ''status'' = JStr ''published''" by (simp add: getp_def)
  have s2: "truthy (getp ?p2 ''status'') \<and> getp ?p2 ''status'' \<noteq> JStr ''published''"
    by (simp add: getp_def)
  have s3: "''status'' \<notin> fst ` set ?p3" by simp
  have h1: "hd (news (snd ?x1)) \<in> set (news (snd ?x1)) \<and> n_id (hd (news (snd ?x1))) = 1"
    by code_simp
  have h2: "hd (news (snd ?x2)) \<in> set (news (snd ?x2)) \<and> n_id (hd (news (snd ?x2))) = 1"
    by code_simp
  from news_update_published_at[OF ran1] s1 h1
  have a: "n_published_at (hd (news (snd ?x1))) = JStr ''2024-02-01 00:00:00''" by blast
  from news_update_published_at[OF ran2] s2 h2
  have b: "n_published_at (hd (news (snd ?x2))) = JNull" by blast
  from news_update_published_at[OF ran3] s3
  have c: "map n_published_at (news (snd ?x3)) = map n_published_at (news example_db)" by blast
  from a b c show ?thesis by blast
qed

section \<open>The allow-lists of the updates\<close>

lemma map_of_filter_key:
  "P k \<Longrightarrow> map_of (filter (\<lambda>a. P (fst a)) ob) k = map_of ob k"
  by (induction ob) auto

lemma getp_filter_allowed:
  "k \<in> set A \<Longrightarrow> getp (filter (\<lambda>a. fst a \<in> set A) ob) k = getp ob k"
  using map_of_filter_key[of "\<lambda>k. k \<in> set A" k ob] by (simp add: getp_def)

lemma map_fst_filter:
  "map fst (filter (\<lambda>a. fst a \<in> set A) ob) = filter (\<lambda>k. k \<in> set A) (map fst ob)"
  by (induction ob) auto

lemma allowed_assignments_filter:
  "allowed_assignments A (filter (\<lambda>a. fst a \<in> set A) ob) = allowed_assignments A ob"
  unfolding allowed_assignments_def map_fst_filter
  by (auto simp: getp_filter_allowed)

lemma allowed_assignments_empty:
  "allowed_assignments A ob = [] \<longleftrightarrow> (\<forall>a \<in> set ob. fst a \<notin> set A)"
  by (auto simp: allowed_assignments_def filter_empty_conv)

lemma published_at_stamp_filter:
  "published_at_stamp now (filter (\<lambda>a. fst a \<in> set News_allowedFields) ob) = published_at_stamp now ob"
proof -
  have "''status'' \<in> set News_allowedFields" by (simp add: News_allowedFields_def)
  then have "getp (filter (\<lambda>a. fst a \<in> set News_allowedFields) ob) ''status'' = getp ob ''status''"
    by (rule getp_filter_allowed)
  then show ?thesis by (simp add: published_at_stamp_def)
qed

lemma User_updateById_filter:
  "User_updateById d now i (filter (\<lambda>a. fst a \<in> set User_allowedFields) ob) = User_updateById d now i ob"
  by (simp add: User_updateById_def Let_def allowed_assignments_filter)

lemma Category_updateById_filter:
  "Category_updateById d now i (filter (\<lambda>a. fst a \<in> set Category_allowedFields) ob) =
   Category_updateById d now i ob"
  by (simp add: Category_updateById_def Let_def allowed_assignments_filter)

lemma News_updateById_filter:
  "News_updateById d now i (filter (\<lambda>a. fst a \<in> set News_allowedFields) ob) = News_updateById d now i ob"
  by (simp add: News_updateById_def Let_def allowed_assignments_filter published_at_stamp_filter)

lemma set_user_column_frame:
  "u_id (set_user_column a r) = u_id r \<and> u_password (set_user_column a r) = u_password r \<and>
   u_created_at (set_user_column a r) = u_created_at r"
  by (simp add: set_user_column_def Let_def)

lemma fold_set_user_column_frame:
  "u_id (fold set_user_column as r) = u_id r \<and> u_password (fold set_user_column as r) = u_password r \<and>
   u_created_at (fold set_user_column as r) = u_created_at r"
  by (induction as arbitrary: r) (simp_all add: set_user_column_frame)

lemma set_category_column_frame:
  "c_id (set_category_column a r) = c_id r \<and> c_created_at (set_category_column a r) = c_created_at r"
  by (simp add: set_category_column_def Let_def)

lemma fold_set_category_column_frame:
  "c_id (fold set_category_column as r) = c_id r \<and>
   c_created_at (fold set_category_column as r) = c_created_at r"
  by (induction as arbitrary: r) (simp_all add: set_category_column_frame)

lemma set_news_column_frame:
  "n_author_id (set_news_column a r) = n_author_id r \<and>
   n_created_at (set_news_column a r) = n_created_at r"
  by (simp add: set_news_column_def Let_def)

lemma fold_set_news_column_frame:
  "n_author_id (fold set_news_column as r) = n_author_id r \<and>
   n_created_at (fold set_news_column as r) = n_created_at r"
  by (induction as arbitrary: r) (simp_all add: set_news_column_frame)

lemma User_updateById_frame:
  "map u_id (users (snd (User_updateById d now i ob))) = map u_id (users d) \<and>
   map u_password (users (snd (User_updateById d now i ob))) = map u_password (users d) \<and>
   map u_created_at (users (snd (User_updateById d now i ob))) = map u_created_at (users d) \<and>
   categories (snd (User_updateById d now i ob)) = categories d \<and>
   news (snd (User_updateById d now i ob)) = news d"
  by (auto simp: User_updateById_def update_users_def Let_def fold_set_user_column_frame
        set_user_column_frame
        split: sum.splits if_splits)

lemma Category_updateById_frame:
  "map c_id (categories (snd (Category_updateById d now i ob))) = map c_id (categories d) \<and>
   map c_created_at (categories (snd (Category_updateById d now i ob))) = map c_created_at (categories d) \<and>
   users (snd (Category_updateById d now i ob)) = users d \<and>
   news (snd (Category_updateById d now i ob)) = news d"
  by (auto simp: Category_updateById_def update_categories_def Let_def fold_set_category_column_frame
        set_category_column_frame
        split: sum.splits if_splits)

lemma News_updateById_frame:
  "map n_id (news (snd (News_updateById d now i ob))) = map n_id (news d) \<and>
   map n_author_id (news (snd (News_updateById d now i ob))) = map n_author_id (news d) \<and>
   map n_created_at (news (snd (News_updateById d now i ob))) = map n_created_at (news d) \<and>
   users (snd (News_updateById d now i ob)) = users d \<and>
   categories (snd (News_updateById d now i ob)) = categories d"
  by (auto simp: News_updateById_def update_news_def Let_def fold_set_news_column_frame
        fold_set_news_column_id set_news_column_id set_news_column_frame
        split: sum.splits if_splits)

lemma updateById_no_fields:
  "(\<forall>a \<in> set ob. fst a \<notin> set User_allowedFields) \<Longrightarrow>
     User_updateById d now i ob = (Inl NoValidFields, d)"
  "(\<forall>a \<in> set ob. fst a \<notin> set Category_allowedFields) \<Longrightarrow>
     Category_updateById d now i ob = (Inl NoValidFields, d)"
  "(\<forall>a \<in> set ob. fst a \<notin> set News_allowedFields) \<Longrightarrow>
     News_updateById d now i ob = (Inl NoValidFields, d)"
  using allowed_assignments_empty
  by (simp_all add: User_updateById_def Category_updateById_def News_updateById_def)

lemma updateById_error_unchanged:
  "fst (User_updateById d now i ob) = Inl e \<Longrightarrow> snd (User_updateById d now i ob) = d"
  "fst (Category_updateById d now i ob) = Inl e \<Longrightarrow> snd (Category_updateById d now i ob) = d"
  "fst (News_updateById d now i ob) = Inl e \<Longrightarrow> snd (News_updateById d now i ob) = d"
  by (auto simp: User_updateById_def Category_updateById_def News_updateById_def Let_def
        split: sum.splits if_splits)

text \<open>
  Claim C7: for each of the three entities, \<^verbatim>\<open>updateById\<close> does what it does on the
  payload restricted to the entity's allow-list, so a field outside the list has no
  effect; the ids and the creation times of all rows (and the passwords of the users,
  the authors of the news) are what they were, whatever the payload; and a payload
  without an allowed field fails with the no-fields error and leaves the store as it
  was. Neither \<open>id\<close> nor
  \<open>password\<close> is in an allow-list. (The operation itself stamps \<open>updated_at\<close>, which no
  payload sets.)
\<close>

theorem update_allow_list:
  "(User_updateById d now i ob =
      User_updateById d now i (filter (\<lambda>a. fst a \<in> set User_allowedFields) ob) \<and>
    map u_id (users (snd (User_updateById d now i ob))) = map u_id (users d) \<and>
    map u_password (users (snd (User_updateById d now i ob))) = map u_password (users d) \<and>
    map u_created_at (users (snd (User_updateById d now i ob))) = map u_created_at (users d) \<and>
    ((\<forall>a \<in> set ob. fst a \<notin> set User_allowedFields) \<longrightarrow>
       User_updateById d now i ob = (Inl NoValidFields, d))) \<and>
   (Category_updateById d now i ob =
      Category_updateById d now i (filter (\<lambda>a. fst a \<in> set Category_allowedFields) ob) \<and>
    map c_id (categories (snd (Category_updateById d now i ob))) = map c_id (categories d) \<and>
    map c_created_at (categories (snd (Category_updateById d now i ob))) =
      map c_created_at (categories d) \<and>
    ((\<forall>a \<in> set ob. fst a \<notin> set Category_allowedFields) \<longrightarrow>
       Category_updateById d now i ob = (Inl NoValidFields, d))) \<and>
   (News_updateById d now i ob =
      News_updateById d now i (filter (\<lambda>a. fst a \<in> set News_allowedFields) ob) \<and>
    map n_id (news (snd (News_updateById d now i ob))) = map n_id (news d) \<and>
    map n_author_id (news (snd (News_updateById d now i ob))) = map n_author_id (news d) \<and>
    map n_created_at (news (snd (News_updateById d now i ob))) = map n_created_at (news d) \<and>
    ((\<forall>a \<in> set ob. fst a \<notin> set News_allowedFields) \<longrightarrow>
       News_updateById d now i ob = (Inl NoValidFields, d))) \<and>
   ''password'' \<notin> set User_allowedFields \<and> ''id'' \<notin> set User_allowedFields \<and>
   ''id'' \<notin> set Category_allowedFields \<and> ''id'' \<notin> set News_allowedFields"
proof -
  have keys: "''password'' \<notin> set User_allowedFields \<and> ''id'' \<notin> set User_allowedFields \<and>
     ''id'' \<notin> set Category_allowedFields \<and> ''id'' \<notin> set News_allowedFields"
    by (simp add: User_allowedFields_def Category_allowedFields_def News_allowedFields_def)
  show ?thesis
    using keys User_updateById_filter[of d now i ob] Category_updateById_filter[of d now i ob]
      News_updateById_filter[of d now i ob]
      User_updateById_frame[of d now i ob] Category_updateById_frame[of d now i ob]
      News_updateById_frame[of d now i ob]
      updateById_no_fields(1)[of ob d now i] updateById_no_fields(2)[of ob d now i]
      updateById_no_fields(3)[of ob d now i]
    by simp
qed

theorem update_allow_list_witness:
  "User_updateById example_db ''2024-02-01 00:00:00'' 3
      [(''password'', JStr ''hacked''), (''id'', JNum 99)] = (Inl NoValidFields, example_db) \<and>
   Category_updateById example_db ''2024-02-01 00:00:00'' 1
      [(''password'', JStr ''hacked''), (''id'', JNum 99)] = (Inl NoValidFields, example_db) \<and>
   News_updateById example_db ''2024-02-01 00:00:00'' 1
      [(''password'', JStr ''hacked''), (''id'', JNum 99)] = (Inl NoValidFields, example_db) \<and>
   map u_password (users (snd (User_updateById example_db ''2024-02-01 00:00:00'' 3
      [(''password'', JStr ''hacked''), (''first_name'', JStr ''Al'')]))) =
     map u_password (users example_db) \<and>
   fst (User_updateById example_db ''2024-02-01 00:00:00'' 3
      [(''password'', JStr ''hacked''), (''first_name'', JStr ''Al'')]) =
   fst (User_updateById example_db ''2024-02-01 00:00:00'' 3 [(''first_name'', JStr ''Al'')])"
proof -
  let ?bad = "[(''password'', JStr ''hacked''), (''id'', JNum 99)]"
  let ?mix = "[(''password'', JStr ''hacked''), (''first_name'', JStr ''Al'')]"
  have u: "\<forall>a \<in> set ?bad. fst a \<notin> set User_allowedFields"
    by (simp add: User_allowedFields_def)
  have c: "\<forall>a \<in> set ?bad. fst a \<notin> set Category_allowedFields"
    by (simp add: Category_allowedFields_def)
  have n: "\<forall>a \<in> set ?bad. fst a \<notin> set News_allowedFields"
    by (simp add: News_allowedFields_def)
  have f: "filter (\<lambda>a. fst a \<in> set User_allowedFields) ?mix = [(''first_name'', JStr ''Al'')]"
    by (simp add: User_allowedFields_def)
  note t3 = update_allow_list[of example_db "''2024-02-01 00:00:00''" 3 ?bad]
  note t1 = update_allow_list[of example_db "''2024-02-01 00:00:00''" 1 ?bad]
  note tm = update_allow_list[of example_db "''2024-02-01 00:00:00''" 3 ?mix]
  have a1: "User_updateById example_db ''2024-02-01 00:00:00'' 3 ?bad = (Inl NoValidFields, example_db)"
    using t3 u by blast
  have a2: "Category_updateById example_db ''2024-02-01 00:00:00'' 1 ?bad = (Inl NoValidFields, example_db)"
    using t1 c by blast
  have a3: "News_updateById example_db ''2024-02-01 00:00:00'' 1 ?bad = (Inl NoValidFields, example_db)"
    using t1 n by blast
  have a4: "map u_password (users (snd (User_updateById example_db ''2024-02-01 00:00:00'' 3 ?mix))) =
     map u_password (users example_db)"
    using tm by blast
  have "User_updateById example_db ''2024-02-01 00:00:00'' 3 ?mix =
        User_updateById example_db ''2024-02-01 00:00:00'' 3
          (filter (\<lambda>a. fst a \<in> set User_allowedFields) ?mix)"
    using tm by blast
  then have a5: "fst (User_updateById example_db ''2024-02-01 00:00:00'' 3 ?mix) =
        fst (User_updateById example_db ''2024-02-01 00:00:00'' 3 [(''first_name'', JStr ''Al'')])"
    unfolding f by simp
  from a1 a2 a3 a4 a5 show ?thesis by blast
qed

section \<open>Renaming regenerates the slug\<close>

lemma getp_update: "getp (AList.update k v ob) k' = (if k' = k then v else getp ob k')"
  by (simp add: getp_def update_conv')

lemma key_in_update: "k \<in> set (map fst (AList.update k v ob))"
  using dom_update[of k v ob] by (simp add: dom_map_of_conv_image_fst[symmetric] del: dom_update)

lemma fill_slug_title:
  assumes "getp body key = JStr t" "t \<noteq> []" "\<not> truthy (getp body ''slug'')"
  shows "fill_slug gen key body = Inr (AList.update ''slug'' (JStr (gen t)) body)"
  using assms by (simp add: fill_slug_def)

lemma slug_assignment:
  assumes "''slug'' \<in> set A"
  shows "(\<exists>a \<in> set (allowed_assignments A (AList.update ''slug'' (JStr g) ob)). fst a = ''slug'') \<and>
         (\<forall>a \<in> set (allowed_assignments A (AList.update ''slug'' (JStr g) ob)).
             fst a = ''slug'' \<longrightarrow> snd a = JStr g)"
proof
  have "(''slug'', bind_param (getp (AList.update ''slug'' (JStr g) ob) ''slug''))
          \<in> set (allowed_assignments A (AList.update ''slug'' (JStr g) ob))"
    unfolding allowed_assignments_def using assms key_in_update[of "''slug''" "JStr g" ob]
    by (auto simp: image_iff)
  then show "\<exists>a \<in> set (allowed_assignments A (AList.update ''slug'' (JStr g) ob)). fst a = ''slug''"
    by force
next
  show "\<forall>a \<in> set (allowed_assignments A (AList.update ''slug'' (JStr g) ob)).
             fst a = ''slug'' \<longrightarrow> snd a = JStr g"
    by (auto simp: allowed_assignments_def getp_update)
qed

lemma set_news_column_slug:
  "n_slug (set_news_column a r) = (if fst a = ''slug'' then snd a else n_slug r)"
  by (simp add: set_news_column_def Let_def)

lemma fold_news_slug_keep:
  "\<forall>a \<in> set as. fst a = ''slug'' \<longrightarrow> snd a = v \<Longrightarrow> n_slug r = v \<Longrightarrow>
     n_slug (fold set_news_column as r) = v"
  by (induction as arbitrary: r) (simp_all add: set_news_column_slug)

lemma fold_news_slug:
  "\<forall>a \<in> set as. fst a = ''slug'' \<longrightarrow> snd a = v \<Longrightarrow> \<exists>a \<in> set as. fst a = ''slug'' \<Longrightarrow>
     n_slug (fold set_news_column as r) = v"
proof (induction as arbitrary: r)
  case Nil
  then show ?case by simp
next
  case (Cons a as)
  show ?case
  proof (cases "fst a = ''slug''")
    case True
    with Cons.prems(1) have "n_slug (set_news_column a r) = v"
      by (simp add: set_news_column_slug)
    with Cons.prems(1) show ?thesis
      by (simp add: fold_news_slug_keep)
  next
    case False
    with Cons.prems have "\<forall>a \<in> set as. fst a = ''slug'' \<longrightarrow> snd a = v" "\<exists>a \<in> set as. fst a = ''slug''"
      by auto
    then show ?thesis using Cons.IH by simp
  qed
qed

lemma set_category_column_slug:
  "c_slug (set_category_column a r) = (if fst a = ''slug'' then snd a else c_slug r)"
  by (simp add: set_category_column_def Let_def)

lemma fold_category_slug_keep:
  "\<forall>a \<in> set as. fst a = ''slug'' \<longrightarrow> snd a = v \<Longrightarrow> c_slug r = v \<Longrightarrow>
     c_slug (fold set_category_column as r) = v"
  by (induction as arbitrary: r) (simp_all add: set_category_column_slug)

lemma fold_category_slug:
  "\<forall>a \<in> set as. fst a = ''slug'' \<longrightarrow> snd a = v \<Longrightarrow> \<exists>a \<in> set as. fst a = ''slug'' \<Longrightarrow>
     c_slug (fold set_category_column as r) = v"
proof (induction as arbitrary: r)
  case Nil
  then show ?case by simp
next
  case (Cons a as)
  show ?case
  proof (cases "fst a = ''slug''")
    case True
    with Cons.prems(1) have "c_slug (set_category_column a r) = v"
      by (simp add: set_category_column_slug)
    with Cons.prems(1) show ?thesis
      by (simp add: fold_category_slug_keep)
  next
    case False
    with Cons.prems have "\<forall>a \<in> set as. fst a = ''slug'' \<longrightarrow> snd a = v" "\<exists>a \<in> set as. fst a = ''slug''"
      by auto
    then show ?thesis using Cons.IH by simp
  qed
qed

lemma News_updateById_returns:
  assumes "News_updateById d now i ob = (Inr res, d')" "\<exists>r \<in> set (news d). n_id r = i"
  shows "res \<noteq> None"
proof -
  from News_updateById_Inr[OF assms(1)]
  have d': "news d' = map (\<lambda>r. if n_id r = i
                  then fold set_news_column
                         (allowed_assignments News_allowedFields ob @
                          published_at_stamp now ob @ [(''updated_at'', JStr now)]) r
                  else r) (news d)"
    and res: "res = News_findById d' i"
    by simp_all
  from assms(2) obtain r where r: "r \<in> set (news d)" "n_id r = i" by blast
  define f where "f = (\<lambda>r. if n_id r = i
                  then fold set_news_column
                         (allowed_assignments News_allowedFields ob @
                          published_at_stamp now ob @ [(''updated_at'', JStr now)]) r
                  else r)"
  have "n_id (f r) = i"
    using r(2) by (simp add: f_def fold_set_news_column_id set_news_column_id)
  moreover have "f r \<in> set (news d')"
    using r(1) unfolding d' f_def by (rule imageI[of r "set (news d)", simplified set_map[symmetric]])
  ultimately have "\<exists>r' \<in> set (news d'). n_id r' = i" by blast
  then show ?thesis
    unfolding res using News_findById_None[of d' i] by blast
qed

lemma News_updateById_slug:
  assumes "News_updateById d now i (AList.update ''slug'' (JStr g) ob) = (Inr res, d')"
  shows "(\<forall>r \<in> set (news d'). n_id r = i \<longrightarrow> n_slug r = JStr g) \<and>
         (\<forall>v. res = Some v \<longrightarrow> n_slug v = JStr g)"
proof -
  let ?ud = "AList.update ''slug'' (JStr g) ob"
  let ?as = "allowed_assignments News_allowedFields ?ud @
             published_at_stamp now ?ud @ [(''updated_at'', JStr now)]"
  from News_updateById_Inr[OF assms]
  have d': "news d' = map (\<lambda>r. if n_id r = i then fold set_news_column ?as r else r) (news d)"
    and res: "res = News_findById d' i"
    by simp_all
  have "''slug'' \<in> set News_allowedFields" by (simp add: News_allowedFields_def)
  from slug_assignment[OF this, of g ob]
  have ex: "\<exists>a \<in> set ?as. fst a = ''slug''" and all: "\<forall>a \<in> set ?as. fst a = ''slug'' \<longrightarrow> snd a = JStr g"
    by (auto simp: published_at_stamp_def)
  have upd: "n_slug (fold set_news_column ?as r) = JStr g" for r
    using all ex by (rule fold_news_slug)
  have rows: "n_slug r = JStr g" if "r \<in> set (news d')" "n_id r = i" for r
  proof -
    from that(1) obtain r0 where r0: "r0 \<in> set (news d)"
      "r = (if n_id r0 = i then fold set_news_column ?as r0 else r0)"
      unfolding d' by auto
    show ?thesis
    proof (cases "n_id r0 = i")
      case True
      with r0 upd show ?thesis by simp
    next
      case False
      with r0 that(2) show ?thesis by simp
    qed
  qed
  have "n_slug v = JStr g" if "res = Some v" for v
  proof -
    from that res have "News_findById d' i = Some v" by simp
    then have "news_row.truncate v \<in> set (news d')" "n_id (news_row.truncate v) = i"
      using News_findById_Some[of d' i v] by (simp_all add: truncate_sel)
    from rows[OF this] show ?thesis by (simp add: truncate_sel)
  qed
  with rows show ?thesis by blast
qed

lemma updateNews_regenerates_slug:
  assumes "getp body ''title'' = JStr t" "t \<noteq> []" "\<not> truthy (getp body ''slug'')"
  shows "(rs_code (fst (NewsController_updateNews d now user newsId body)) = 200 \<longrightarrow>
            (\<forall>r \<in> set (news (snd (NewsController_updateNews d now user newsId body))).
                n_id r = newsId \<longrightarrow> n_slug r = JStr (News_generateSlug t)) \<and>
            (\<exists>v. rs_data (fst (NewsController_updateNews d now user newsId body)) = Some v \<and>
                 n_slug v = JStr (News_generateSlug t))) \<and>
         (rs_code (fst (NewsController_updateNews d now user newsId body)) \<noteq> 200 \<longrightarrow>
            snd (NewsController_updateNews d now user newsId body) = d)"
proof (cases "News_findById d newsId")
  case None
  then show ?thesis by (simp add: NewsController_updateNews_def failure_def)
next
  case (Some existing)
  then have row: "\<exists>r \<in> set (news d). n_id r = newsId"
    using News_findById_None[of d newsId] by auto
  let ?ud = "AList.update ''slug'' (JStr (News_generateSlug t)) body"
  have fs: "fill_slug News_generateSlug ''title'' body = Inr ?ud"
    using assms by (rule fill_slug_title)
  obtain res d' where run: "News_updateById d now newsId ?ud = (res, d')"
    by (cases "News_updateById d now newsId ?ud")
  show ?thesis
  proof (cases res)
    case (Inl e)
    with run have "d' = d"
      using updateById_error_unchanged(3)[of d now newsId ?ud e] by simp
    with Some fs run Inl show ?thesis
      by (simp add: NewsController_updateNews_def failure_def)
  next
    case (Inr r)
    with run News_updateById_returns[of d now newsId ?ud r d'] row
    obtain v where v: "r = Some v" by auto
    from News_updateById_slug[of d now newsId "News_generateSlug t" body r d'] run Inr v
    have "(\<forall>r \<in> set (news d'). n_id r = newsId \<longrightarrow> n_slug r = JStr (News_generateSlug t))"
      "n_slug v = JStr (News_generateSlug t)"
      by simp_all
    with Some fs run Inr v show ?thesis
      by (simp add: NewsController_updateNews_def failure_def success_def)
  qed
qed

lemma Category_findById_Some:
  "Category_findById d (JNum i) = Some c \<Longrightarrow> c \<in> set (categories d) \<and> c_id c = i"
  by (auto simp: Category_findById_def sql_eq_def dest!: getOne_Some)

lemma Category_findById_None:
  "Category_findById d (JNum i) = None \<longleftrightarrow> \<not> (\<exists>c \<in> set (categories d). c_id c = i)"
  by (auto simp: Category_findById_def sql_eq_def getOne_None filter_empty_conv)

lemma Category_updateById_Inr:
  assumes "Category_updateById d now i ob = (Inr res, d')"
  shows "categories d' = map (\<lambda>r. if c_id r = i
                  then fold set_category_column
                         (allowed_assignments Category_allowedFields ob @ [(''updated_at'', JStr now)]) r
                  else r) (categories d) \<and>
         res = Category_findById d' (JNum i)"
  using assms
  by (auto simp: Category_updateById_def update_categories_def Let_def split: if_splits sum.splits)

lemma Category_updateById_returns:
  assumes "Category_updateById d now i ob = (Inr res, d')" "\<exists>r \<in> set (categories d). c_id r = i"
  shows "res \<noteq> None"
proof -
  define f where "f = (\<lambda>r. if c_id r = i
                  then fold set_category_column
                         (allowed_assignments Category_allowedFields ob @ [(''updated_at'', JStr now)]) r
                  else r)"
  from Category_updateById_Inr[OF assms(1)]
  have d': "categories d' = map f (categories d)" and res: "res = Category_findById d' (JNum i)"
    by (simp_all add: f_def)
  from assms(2) obtain r where r: "r \<in> set (categories d)" "c_id r = i" by blast
  have "c_id (f r) = i"
    using r(2) by (simp add: f_def fold_set_category_column_frame set_category_column_frame)
  moreover have "f r \<in> set (categories d')"
    using r(1) unfolding d' by simp
  ultimately have "\<exists>r' \<in> set (categories d'). c_id r' = i" by blast
  then show ?thesis
    unfolding res using Category_findById_None[of d' i] by blast
qed

lemma Category_updateById_slug:
  assumes "Category_updateById d now i (AList.update ''slug'' (JStr g) ob) = (Inr res, d')"
  shows "(\<forall>r \<in> set (categories d'). c_id r = i \<longrightarrow> c_slug r = JStr g) \<and>
         (\<forall>c. res = Some c \<longrightarrow> c_slug c = JStr g)"
proof -
  let ?ud = "AList.update ''slug'' (JStr g) ob"
  let ?as = "allowed_assignments Category_allowedFields ?ud @ [(''updated_at'', JStr now)]"
  from Category_updateById_Inr[OF assms]
  have d': "categories d' = map (\<lambda>r. if c_id r = i then fold set_category_column ?as r else r) (categories d)"
    and res: "res = Category_findById d' (JNum i)"
    by simp_all
  have "''slug'' \<in> set Category_allowedFields" by (simp add: Category_allowedFields_def)
  from slug_assignment[OF this, of g ob]
  have ex: "\<exists>a \<in> set ?as. fst a = ''slug''" and all: "\<forall>a \<in> set ?as. fst a = ''slug'' \<longrightarrow> snd a = JStr g"
    by auto
  have upd: "c_slug (fold set_category_column ?as r) = JStr g" for r
    using all ex by (rule fold_category_slug)
  have rows: "c_slug r = JStr g" if "r \<in> set (categories d')" "c_id r = i" for r
  proof -
    from that(1) obtain r0 where r0: "r0 \<in> set (categories d)"
      "r = (if c_id r0 = i then fold set_category_column ?as r0 else r0)"
      unfolding d' by auto
    show ?thesis
    proof (cases "c_id r0 = i")
      case True
      with r0 upd show ?thesis by simp
    next
      case False
      with r0 that(2) show ?thesis by simp
    qed
  qed
  have "c_slug c = JStr g" if "res = Some c" for c
  proof -
    from that res have "Category_findById d' (JNum i) = Some c" by simp
    then have "c \<in> set (categories d')" "c_id c = i"
      using Category_findById_Some[of d' i c] by simp_all
    from rows[OF this] show ?thesis .
  qed
  with rows show ?thesis by blast
qed

lemma updateCategory_regenerates_slug:
  assumes "getp body ''name'' = JStr t" "t \<noteq> []" "\<not> truthy (getp body ''slug'')"
  shows "(rs_code (fst (CategoryController_updateCategory d now user categoryId body)) = 200 \<longrightarrow>
            (\<forall>r \<in> set (categories (snd (CategoryController_updateCategory d now user categoryId body))).
                c_id r = categoryId \<longrightarrow> c_slug r = JStr (Category_generateSlug t)) \<and>
            (\<exists>c. rs_data (fst (CategoryController_updateCategory d now user categoryId body)) = Some c \<and>
                 c_slug c = JStr (Category_generateSlug t))) \<and>
         (rs_code (fst (CategoryController_updateCategory d now user categoryId body)) \<noteq> 200 \<longrightarrow>
            snd (CategoryController_updateCategory d now user categoryId body) = d)"
proof (cases "Category_findById d (JNum categoryId)")
  case None
  then show ?thesis by (simp add: CategoryController_updateCategory_def failure_def)
next
  case (Some existing)
  then have row: "\<exists>r \<in> set (categories d). c_id r = categoryId"
    using Category_findById_None[of d categoryId] by auto
  let ?ud = "AList.update ''slug'' (JStr (Category_generateSlug t)) body"
  have fs: "fill_slug Category_generateSlug ''name'' body = Inr ?ud"
    using assms by (rule fill_slug_title)
  obtain res d' where run: "Category_updateById d now categoryId ?ud = (res, d')"
    by (cases "Category_updateById d now categoryId ?ud")
  show ?thesis
  proof (cases res)
    case (Inl e)
    with run have "d' = d"
      using updateById_error_unchanged(2)[of d now categoryId ?ud e] by simp
    with Some fs run Inl show ?thesis
      by (simp add: CategoryController_updateCategory_def failure_def split: option.splits)
  next
    case (Inr r)
    with run Category_updateById_returns[of d now categoryId ?ud r d'] row
    obtain c where c: "r = Some c" by auto
    from Category_updateById_slug[of d now categoryId "Category_generateSlug t" body r d'] run Inr c
    have "(\<forall>r \<in> set (categories d'). c_id r = categoryId \<longrightarrow> c_slug r = JStr (Category_generateSlug t))"
      "c_slug c = JStr (Category_generateSlug t)"
      by simp_all
    with Some fs run Inr c show ?thesis
      by (simp add: CategoryController_updateCategory_def failure_def success_def split: option.splits)
  qed
qed

text \<open>
  Claim C10: in an update of a news article whose body has a non-empty title and no
  slug, the controller sets the slug to the one generated from the new title; when the
  update succeeds, the stored article and the returned article have that slug, whatever
  the stored slug was, and when it does not succeed the store is as it was. The same
  holds of a category update whose body has a non-empty name and no slug.
\<close>

theorem rename_regenerates_slug:
  assumes "t \<noteq> []" and "\<not> truthy (getp body ''slug'')"
  shows
  "(getp body ''title'' = JStr t \<longrightarrow>
     (rs_code (fst (NewsController_updateNews d now user i body)) = 200 \<longrightarrow>
        (\<forall>r \<in> set (news (snd (NewsController_updateNews d now user i body))).
            n_id r = i \<longrightarrow> n_slug r = JStr (News_generateSlug t)) \<and>
        (\<exists>v. rs_data (fst (NewsController_updateNews d now user i body)) = Some v \<and>
             n_slug v = JStr (News_generateSlug t))) \<and>
     (rs_code (fst (NewsController_updateNews d now user i body)) \<noteq> 200 \<longrightarrow>
        snd (NewsController_updateNews d now user i body) = d)) \<and>
   (getp body ''name'' = JStr t \<longrightarrow>
     (rs_code (fst (CategoryController_updateCategory d now user i body)) = 200 \<longrightarrow>
        (\<forall>r \<in> set (categories (snd (CategoryController_updateCategory d now user i body))).
            c_id r = i \<longrightarrow> c_slug r = JStr (Category_generateSlug t)) \<and>
        (\<exists>c. rs_data (fst (CategoryController_updateCategory d now user i body)) = Some c \<and>
             c_slug c = JStr (Category_generateSlug t))) \<and>
     (rs_code (fst (CategoryController_updateCategory d now user i body)) \<noteq> 200 \<longrightarrow>
        snd (CategoryController_updateCategory d now user i body) = d))"
  using assms updateNews_regenerates_slug[of body t d now user i]
        updateCategory_regenerates_slug[of body t d now user i]
  by blast

theorem rename_regenerates_slug_witness:
  "n_slug (hd (news (snd (NewsController_updateNews example_db ''2024-02-01 00:00:00''
       \<lparr>cu_id = 3, cu_role = JStr ''user''\<rparr> 1 [(''title'', JStr ''Brand New_Title!'')])))) =
     JStr ''brand-new-title'' \<and>
   n_slug (hd (news example_db)) = JStr ''first-post'' \<and>
   c_slug (last (categories (snd (CategoryController_updateCategory example_db ''2024-02-01 00:00:00''
       \<lparr>cu_id = 1, cu_role = JStr ''admin''\<rparr> 2 [(''name'', JStr ''Water Sports'')])))) =
     JStr ''water-sports'' \<and>
   c_slug (last (categories example_db)) = JStr ''sports''"
proof -
  let ?nb = "[(''title'', JStr ''Brand New_Title!'')]"
  let ?cb = "[(''name'', JStr ''Water Sports'')]"
  let ?n = "NewsController_updateNews example_db ''2024-02-01 00:00:00''
       \<lparr>cu_id = 3, cu_role = JStr ''user''\<rparr> 1 ?nb"
  let ?c = "CategoryController_updateCategory example_db ''2024-02-01 00:00:00''
       \<lparr>cu_id = 1, cu_role = JStr ''admin''\<rparr> 2 ?cb"
  have n1: "''Brand New_Title!'' \<noteq> []" "\<not> truthy (getp ?nb ''slug'')"
    "getp ?nb ''title'' = JStr ''Brand New_Title!''"
    by (simp_all add: getp_def)
  have c1: "''Water Sports'' \<noteq> []" "\<not> truthy (getp ?cb ''slug'')"
    "getp ?cb ''name'' = JStr ''Water Sports''"
    by (simp_all add: getp_def)
  have n2: "rs_code (fst ?n) = 200 \<and> hd (news (snd ?n)) \<in> set (news (snd ?n)) \<and>
            n_id (hd (news (snd ?n))) = 1"
    by code_simp
  have c2: "rs_code (fst ?c) = 200 \<and> last (categories (snd ?c)) \<in> set (categories (snd ?c)) \<and>
            c_id (last (categories (snd ?c))) = 2"
    by code_simp
  have g: "News_generateSlug ''Brand New_Title!'' = ''brand-new-title''"
    "Category_generateSlug ''Water Sports'' = ''water-sports''"
    by code_simp+
  have old: "n_slug (hd (news example_db)) = JStr ''first-post''"
    "c_slug (last (categories example_db)) = JStr ''sports''"
    by code_simp+
  from rename_regenerates_slug[OF n1(1,2), of example_db "''2024-02-01 00:00:00''"
         "\<lparr>cu_id = 3, cu_role = JStr ''user''\<rparr>" 1] n1(3) n2
  have a: "n_slug (hd (news (snd ?n))) = JStr (News_generateSlug ''Brand New_Title!'')"
    by blast
  from rename_regenerates_slug[OF c1(1,2), of example_db "''2024-02-01 00:00:00''"
         "\<lparr>cu_id = 1, cu_role = JStr ''admin''\<rparr>" 2] c1(3) c2
  have b: "c_slug (last (categories (snd ?c))) = JStr (Category_generateSlug ''Water Sports'')"
    by blast
  from a b g old show ?thesis by simp
qed

section \<open>Pagination of the listings\<close>

lemma length_insert_by: "length (insert_by le x xs) = Suc (length xs)"
  by (induction xs) auto

lemma length_sort_by: "length (sort_by le xs) = length xs"
  by (induction xs) (simp_all add: sort_by_def length_insert_by)

lemma set_insert_by: "set (insert_by le x xs) = insert x (set xs)"
  by (induction xs) auto

lemma set_sort_by: "set (sort_by le xs) = set xs"
  by (induction xs) (simp_all add: sort_by_def set_insert_by)

lemma limit_offset_nonneg: "0 \<le> l \<Longrightarrow> limit_offset l off xs = take (nat l) (drop (nat off) xs)"
  by (simp add: limit_offset_def)

lemma set_limit_offset: "set (limit_offset l off xs) \<subseteq> set xs"
  by (auto simp: limit_offset_def Let_def dest: in_set_takeD in_set_dropD)

lemma ceil_div_ceiling:
  "lmt \<noteq> 0 \<Longrightarrow> ceil_div tot lmt = Fin \<lceil>real_of_int tot / real_of_int lmt\<rceil>"
  by (simp add: ceil_div_def ceiling_divide_eq_div)

lemma where_all_append: "where_all (a @ b) r \<longleftrightarrow> where_all a r \<and> where_all b r"
  by (simp add: where_all_def)

lemma where_all_when_str:
  "given_string x \<Longrightarrow> where_all (when_str x f) r = provided x (\<lambda>s. f s r)"
  by (cases x) (simp_all add: where_all_def when_str_def provided_def given_string_def)

lemma where_all_when_num:
  "given_id x \<Longrightarrow> where_all (when_num x f) r = provided x (\<lambda>k. f k r)"
  by (cases x) (simp_all add: where_all_def when_num_def provided_def given_id_def)

lemma where_all_when_bool:
  "where_all (when_bool x f) r = provided x (\<lambda>b. f (JNum (if b then 1 else 0)) r)"
  by (cases x) (simp_all add: where_all_def when_bool_def provided_def)

lemma sql_eq_const: "sql_eq v (JStr s) = (v = JStr s)" "sql_eq v (JNum k) = (v = JNum k)"
  by (auto simp: sql_eq_def)

lemma User_conditions_spec:
  assumes "given_string (uo_role opts)" "given_string (uo_search opts)"
  shows "where_all (User_conditions opts) u = user_filter_spec opts u"
  by (simp add: User_conditions_def user_filter_spec_def where_all_append
        where_all_when_str[OF assms(1)] where_all_when_str[OF assms(2)] where_all_when_bool
        sql_eq_const)

lemma User_matching_spec:
  assumes "given_string (uo_role opts)" "given_string (uo_search opts)"
  shows "User_matching d opts = filter (user_filter_spec opts) (users d)"
  unfolding User_matching_def
  by (rule filter_cong[OF refl]) (rule User_conditions_spec[OF assms])

lemma Category_conditions_spec:
  assumes "given_string (co_search opts)"
  shows "where_all (Category_conditions opts) c = category_filter_spec opts c"
  by (simp add: Category_conditions_def category_filter_spec_def where_all_append
        where_all_when_str[OF assms] where_all_when_bool sql_eq_const)

lemma Category_matching_spec:
  assumes "given_string (co_search opts)"
  shows "Category_matching d opts = filter (category_filter_spec opts) (categories d)"
  unfolding Category_matching_def
  by (rule filter_cong[OF refl]) (rule Category_conditions_spec[OF assms])

lemma mk_view_sel:
  "n_status (mk_view n c u) = n_status n"
  "n_category_id (mk_view n c u) = n_category_id n"
  "n_author_id (mk_view n c u) = n_author_id n"
  "n_title (mk_view n c u) = n_title n"
  "n_content (mk_view n c u) = n_content n"
  "n_summary (mk_view n c u) = n_summary n"
  by (simp_all add: mk_view_def news_row.defs)

lemma News_conditions_spec:
  assumes "given_string (no_status opts)" "given_id (no_category_id opts)"
    "given_id (no_author_id opts)" "given_string (no_search opts)"
  shows "where_all (News_conditions opts) (mk_view n c u) = news_filter_spec opts n"
  by (simp add: News_conditions_def news_filter_spec_def where_all_append
        where_all_when_str[OF assms(1)] where_all_when_str[OF assms(4)]
        where_all_when_num[OF assms(2)] where_all_when_num[OF assms(3)]
        sql_eq_const mk_view_sel)

lemma filter_unique:
  assumes "distinct (map f xs)" "\<And>x y. P x \<Longrightarrow> P y \<Longrightarrow> f x = f y"
  shows "length (filter P xs) \<le> 1"
  using assms(1)
proof (induction xs)
  case Nil
  then show ?case by simp
next
  case (Cons a xs)
  show ?case
  proof (cases "P a")
    case True
    have "\<forall>y \<in> set xs. \<not> P y"
    proof
      fix y assume y: "y \<in> set xs"
      show "\<not> P y"
      proof
        assume "P y"
        with True have "f a = f y" by (rule assms(2))
        moreover from Cons.prems have "f a \<notin> f ` set xs" by simp
        ultimately show False using y by blast
      qed
    qed
    then have "filter P xs = []" by (simp add: filter_empty_conv)
    with True show ?thesis by simp
  next
    case False
    from Cons.prems have "distinct (map f xs)" by simp
    then have "length (filter P xs) \<le> 1" by (rule Cons.IH)
    with False show ?thesis by simp
  qed
qed

lemma join_category_single:
  assumes "unique_keys d"
  shows "\<exists>c. join_category d n = [c]"
proof -
  have "length (filter (\<lambda>c. JNum (c_id c) = n_category_id n) (categories d)) \<le> 1"
  proof (rule filter_unique[where f = c_id])
    show "distinct (map c_id (categories d))" using assms by (simp add: unique_keys_def)
  next
    fix x y assume "JNum (c_id x) = n_category_id n" "JNum (c_id y) = n_category_id n"
    then have "JNum (c_id x) = JNum (c_id y)" by simp
    then show "c_id x = c_id y" by simp
  qed
  then show ?thesis
    unfolding join_category_def
    by (cases "filter (\<lambda>c. JNum (c_id c) = n_category_id n) (categories d)") simp_all
qed

lemma join_author_single:
  assumes "unique_keys d"
  shows "\<exists>u. join_author d n = [u]"
proof -
  have "length (filter (\<lambda>u. JNum (u_id u) = n_author_id n) (users d)) \<le> 1"
  proof (rule filter_unique[where f = u_id])
    show "distinct (map u_id (users d))" using assms by (simp add: unique_keys_def)
  next
    fix x y assume "JNum (u_id x) = n_author_id n" "JNum (u_id y) = n_author_id n"
    then have "JNum (u_id x) = JNum (u_id y)" by simp
    then show "u_id x = u_id y" by simp
  qed
  then show ?thesis
    unfolding join_author_def
    by (cases "filter (\<lambda>u. JNum (u_id u) = n_author_id n) (users d)") simp_all
qed

lemma joined_filter_length:
  assumes "unique_keys d" "\<And>n c u. P (mk_view n c u) = Q n"
  shows "length (filter P (concat (map (\<lambda>n. concat (map (\<lambda>c. map (\<lambda>u. mk_view n c u) (join_author d n))
                                 (join_category d n))) ns))) = length (filter Q ns)"
proof (induction ns)
  case Nil
  then show ?case by simp
next
  case (Cons n ns)
  from join_category_single[OF assms(1)] obtain c where c: "join_category d n = [c]" by blast
  from join_author_single[OF assms(1)] obtain u where u: "join_author d n = [u]" by blast
  have "concat (map (\<lambda>c. map (\<lambda>u. mk_view n c u) (join_author d n)) (join_category d n)) =
        [mk_view n c u]"
    by (simp add: c u)
  then show ?case using Cons.IH by (simp add: assms(2))
qed

lemma News_matching_spec:
  assumes "unique_keys d" "given_string (no_status opts)" "given_id (no_category_id opts)"
    "given_id (no_author_id opts)" "given_string (no_search opts)"
  shows "length (News_matching d opts) = length (filter (news_filter_spec opts) (news d))"
  unfolding News_matching_def news_joined_def
  by (rule joined_filter_length[OF assms(1)]) (rule News_conditions_spec[OF assms(2-5)])

lemma ambiguous_column_simps:
  "ambiguous_column ''id''" "ambiguous_column ''slug''" "ambiguous_column ''created_at''"
  "\<not> ambiguous_column ''name''" "\<not> ambiguous_column ''is_active''"
  "\<not> ambiguous_column ''description''"
  by (simp_all add: ambiguous_column_def categories_columns_def news_columns_def)

lemma Category_sortField_name:
  "Category_sortField opts = ''name'' \<longleftrightarrow> co_sort opts = Some ''name''"
  by (cases "co_sort opts") (simp_all add: Category_sortField_def dflt_def Let_def)

lemma Category_sortField_ambiguous:
  assumes "co_sort opts \<noteq> Some ''name''"
  shows "ambiguous_column (Category_sortField opts)"
proof -
  have "Category_sortField opts \<in> {''id'', ''name'', ''slug'', ''created_at''}"
    by (simp add: Category_sortField_def Let_def)
  moreover have "Category_sortField opts \<noteq> ''name''"
    using assms by (simp add: Category_sortField_name)
  ultimately show ?thesis
    using ambiguous_column_simps(1-3) by auto
qed

lemma Category_ordered_ambiguous:
  assumes "co_sort opts \<noteq> Some ''name''"
  shows "Category_ordered d opts = Inl SqliteError"
  using Category_sortField_ambiguous[OF assms]
  by (simp add: Category_ordered_def Let_def Category_unqualified_def)

lemma Category_findAll_ambiguous:
  assumes "co_sort opts \<noteq> Some ''name''"
  shows "Category_findAll d opts = Inl SqliteError"
  by (simp add: Category_findAll_def Let_def Category_ordered_ambiguous[OF assms])

lemma Category_unqualified_by_name:
  "\<not> list_ex ambiguous_column (Category_unqualified opts ''name'')"
  by (cases "co_is_active opts"; cases "co_search opts")
     (simp_all add: Category_unqualified_def when_bool_def when_str_def ambiguous_column_simps)

lemma Category_ordered_by_name:
  assumes "co_sort opts = Some ''name''"
  shows "Category_ordered d opts =
     Inr (order_by (category_sort_key ''name'') (toLowerCase (dflt ''desc'' (co_order opts)) = ''asc'')
            (group_count (filter (\<lambda>x. where_all (Category_conditions opts) (fst x))
                            (cat_news_join d))))"
proof -
  have "Category_sortField opts = ''name''" using assms by (simp add: Category_sortField_name)
  then show ?thesis
    by (simp add: Category_ordered_def Let_def Category_unqualified_by_name)
qed

lemma fst_cat_news_join: "fst ` set (cat_news_join d) = set (categories d)"
proof
  show "fst ` set (cat_news_join d) \<subseteq> set (categories d)"
    using cat_news_join_iff by fastforce
next
  show "set (categories d) \<subseteq> fst ` set (cat_news_join d)"
  proof
    fix c assume c: "c \<in> set (categories d)"
    show "c \<in> fst ` set (cat_news_join d)"
    proof (cases "\<exists>n \<in> set (news d). n_category_id n = JNum (c_id c)")
      case True
      then obtain n where "n \<in> set (news d)" "n_category_id n = JNum (c_id c)" by blast
      with c have "(c, Some n) \<in> set (cat_news_join d)" by (simp add: cat_news_join_iff)
      then show ?thesis by force
    next
      case False
      with c have "(c, None) \<in> set (cat_news_join d)" by (simp add: cat_news_join_iff)
      then show ?thesis by force
    qed
  qed
qed

lemma truncate_extend_category: "category_row.truncate (category_row.extend c m) = c"
  by (simp add: category_row.defs)

lemma truncate_group_count:
  "category_row.truncate ` set (group_count rows) = fst ` set rows"
  by (simp add: group_count_def image_image truncate_extend_category)

lemma valid_paging_limit:
  assumes "valid_paging page lmt"
  shows "0 \<le> lmt" "lmt \<noteq> 0" "1 \<le> lmt"
  using assms by (simp_all add: valid_paging_def)

lemma length_limit_offset:
  assumes "valid_paging page lmt"
  shows "int (length (limit_offset lmt off xs)) \<le> lmt"
proof -
  from assms have "0 \<le> lmt" by (simp add: valid_paging_def)
  then have "limit_offset lmt off xs = take (nat lmt) (drop (nat off) xs)"
    by (rule limit_offset_nonneg)
  moreover have "length (take (nat lmt) (drop (nat off) xs)) \<le> nat lmt" by simp
  ultimately have "length (limit_offset lmt off xs) \<le> nat lmt" by simp
  then have "int (length (limit_offset lmt off xs)) \<le> int (nat lmt)" by (simp only: of_nat_le_iff)
  with \<open>0 \<le> lmt\<close> show ?thesis by simp
qed

lemma User_ordered_rows:
  "length (User_ordered d opts) = length (User_matching d opts)"
  "set (User_ordered d opts) = set (User_matching d opts)"
  by (simp_all add: User_ordered_def Let_def order_by_def length_sort_by set_sort_by)

lemma News_ordered_rows:
  "length (News_ordered d opts) = length (News_matching d opts)"
  "set (News_ordered d opts) = set (News_matching d opts)"
  by (simp_all add: News_ordered_def Let_def order_by_def length_sort_by set_sort_by)

text \<open>
  The listings of the users and of the news on valid options: the total is the number
  of rows of the table that satisfy the filter of the specification (for the news, in
  a store whose keys are unique, so that the joins add no row), the pages are the
  ceiling of total over limit, the items are the rows from offset
  \<^verbatim>\<open>(page - 1) * limit\<close> on in the order asked for, at most limit of them, and the
  ordered rows are the rows that satisfy the filter. The listing of the categories
  does the same when it is sorted by name, and throws for every other sort.
\<close>

lemma User_findAll_page:
  assumes "valid_paging (dflt 1 (uo_page opts)) (dflt 10 (uo_limit opts))"
    "given_string (uo_role opts)" "given_string (uo_search opts)"
  shows "pg_total (pagination (User_findAll d opts)) =
           int (length (filter (user_filter_spec opts) (users d)))"
    and "pg_pages (pagination (User_findAll d opts)) =
           Fin \<lceil>real_of_int (pg_total (pagination (User_findAll d opts))) /
                real_of_int (dflt 10 (uo_limit opts))\<rceil>"
    and "items (User_findAll d opts) =
           map without_password
             (take (nat (dflt 10 (uo_limit opts)))
                (drop (nat ((dflt 1 (uo_page opts) - 1) * dflt 10 (uo_limit opts)))
                   (User_ordered d opts)))"
    and "int (length (items (User_findAll d opts))) \<le> dflt 10 (uo_limit opts)"
    and "set (User_ordered d opts) = {u \<in> set (users d). user_filter_spec opts u}"
    and "int (length (User_ordered d opts)) = pg_total (pagination (User_findAll d opts))"
proof -
  note l = valid_paging_limit[OF assms(1)]
  note m = User_matching_spec[OF assms(2,3)]
  show "pg_total (pagination (User_findAll d opts)) =
           int (length (filter (user_filter_spec opts) (users d)))"
    by (simp add: User_findAll_def Let_def m)
  show "pg_pages (pagination (User_findAll d opts)) =
           Fin \<lceil>real_of_int (pg_total (pagination (User_findAll d opts))) /
                real_of_int (dflt 10 (uo_limit opts))\<rceil>"
    using l(2) by (simp add: User_findAll_def Let_def ceil_div_ceiling)
  show "items (User_findAll d opts) =
           map without_password
             (take (nat (dflt 10 (uo_limit opts)))
                (drop (nat ((dflt 1 (uo_page opts) - 1) * dflt 10 (uo_limit opts)))
                   (User_ordered d opts)))"
    using l(1) by (simp add: User_findAll_def Let_def limit_offset_nonneg)
  show "int (length (items (User_findAll d opts))) \<le> dflt 10 (uo_limit opts)"
    using length_limit_offset[OF assms(1)] by (simp add: User_findAll_def Let_def)
  show "set (User_ordered d opts) = {u \<in> set (users d). user_filter_spec opts u}"
    by (simp add: User_ordered_rows(2) m)
  show "int (length (User_ordered d opts)) = pg_total (pagination (User_findAll d opts))"
    by (simp add: User_ordered_rows(1) User_findAll_def Let_def)
qed

lemma News_findAll_page:
  assumes "valid_paging (dflt 1 (no_page opts)) (dflt 10 (no_limit opts))"
    "given_string (no_status opts)" "given_id (no_category_id opts)"
    "given_id (no_author_id opts)" "given_string (no_search opts)" "unique_keys d"
  shows "pg_total (pagination (News_findAll d opts)) =
           int (length (filter (news_filter_spec opts) (news d)))"
    and "pg_pages (pagination (News_findAll d opts)) =
           Fin \<lceil>real_of_int (pg_total (pagination (News_findAll d opts))) /
                real_of_int (dflt 10 (no_limit opts))\<rceil>"
    and "items (News_findAll d opts) =
           map (\<lambda>v. v\<lparr>n_content := Undefined\<rparr>)
             (take (nat (dflt 10 (no_limit opts)))
                (drop (nat ((dflt 1 (no_page opts) - 1) * dflt 10 (no_limit opts)))
                   (News_ordered d opts)))"
    and "int (length (items (News_findAll d opts))) \<le> dflt 10 (no_limit opts)"
    and "news_row.truncate ` set (News_ordered d opts) =
           {n \<in> set (news d). news_filter_spec opts n}"
    and "int (length (News_ordered d opts)) = pg_total (pagination (News_findAll d opts))"
proof -
  note l = valid_paging_limit[OF assms(1)]
  note m = News_matching_spec[OF assms(6) assms(2-5)]
  show "pg_total (pagination (News_findAll d opts)) =
           int (length (filter (news_filter_spec opts) (news d)))"
    by (simp add: News_findAll_def Let_def m)
  show "pg_pages (pagination (News_findAll d opts)) =
           Fin \<lceil>real_of_int (pg_total (pagination (News_findAll d opts))) /
                real_of_int (dflt 10 (no_limit opts))\<rceil>"
    using l(2) by (simp add: News_findAll_def Let_def ceil_div_ceiling)
  show "items (News_findAll d opts) =
           map (\<lambda>v. v\<lparr>n_content := Undefined\<rparr>)
             (take (nat (dflt 10 (no_limit opts)))
                (drop (nat ((dflt 1 (no_page opts) - 1) * dflt 10 (no_limit opts)))
                   (News_ordered d opts)))"
    using l(1) by (simp add: News_findAll_def Let_def limit_offset_nonneg)
  show "int (length (items (News_findAll d opts))) \<le> dflt 10 (no_limit opts)"
    using length_limit_offset[OF assms(1)] by (simp add: News_findAll_def Let_def)
  show "news_row.truncate ` set (News_ordered d opts) =
           {n \<in> set (news d). news_filter_spec opts n}"
  proof -
    have "news_row.truncate ` set (News_ordered d opts) =
          news_row.truncate ` {v \<in> set (news_joined d). where_all (News_conditions opts) v}"
      by (simp add: News_ordered_rows(2) News_matching_def)
    also have "\<dots> = {n \<in> set (news d). news_filter_spec opts n}"
    proof (rule set_eqI, rule iffI)
      fix n assume "n \<in> news_row.truncate ` {v \<in> set (news_joined d). where_all (News_conditions opts) v}"
      then obtain m c u where mcu: "m \<in> set (news d)" "where_all (News_conditions opts) (mk_view m c u)"
        "n = news_row.truncate (mk_view m c u)"
        by (auto simp: set_news_joined)
      then show "n \<in> {n \<in> set (news d). news_filter_spec opts n}"
        by (simp add: truncate_mk_view News_conditions_spec[OF assms(2-5)])
    next
      fix n assume "n \<in> {n \<in> set (news d). news_filter_spec opts n}"
      then have n: "n \<in> set (news d)" "news_filter_spec opts n" by simp_all
      from join_category_single[OF assms(6)] obtain c where c: "join_category d n = [c]" by blast
      from join_author_single[OF assms(6)] obtain u where u: "join_author d n = [u]" by blast
      have "mk_view n c u \<in> set (news_joined d)"
      proof -
        have "c \<in> set (join_category d n)" "u \<in> set (join_author d n)" by (simp_all add: c u)
        with n(1) show ?thesis unfolding set_news_joined by blast
      qed
      moreover have "where_all (News_conditions opts) (mk_view n c u)"
        using n(2) by (simp add: News_conditions_spec[OF assms(2-5)])
      moreover have "news_row.truncate (mk_view n c u) = n" by (rule truncate_mk_view)
      ultimately show "n \<in> news_row.truncate ` {v \<in> set (news_joined d). where_all (News_conditions opts) v}"
        by force
    qed
    finally show ?thesis .
  qed
  show "int (length (News_ordered d opts)) = pg_total (pagination (News_findAll d opts))"
    by (simp add: News_ordered_rows(1) News_findAll_def Let_def)
qed

lemma Category_findAll_by_name:
  assumes "co_sort opts = Some ''name''"
    "valid_paging (dflt 1 (co_page opts)) (dflt 10 (co_limit opts))"
    "given_string (co_search opts)"
  shows "\<exists>l rows. Category_findAll d opts = Inr l \<and> Category_ordered d opts = Inr rows \<and>
           pg_total (pagination l) = int (length (filter (category_filter_spec opts) (categories d))) \<and>
           pg_pages (pagination l) =
             Fin \<lceil>real_of_int (pg_total (pagination l)) / real_of_int (dflt 10 (co_limit opts))\<rceil> \<and>
           items l =
             take (nat (dflt 10 (co_limit opts)))
               (drop (nat ((dflt 1 (co_page opts) - 1) * dflt 10 (co_limit opts))) rows) \<and>
           int (length (items l)) \<le> dflt 10 (co_limit opts) \<and>
           category_row.truncate ` set rows = {c \<in> set (categories d). category_filter_spec opts c}"
proof -
  note l = valid_paging_limit[OF assms(2)]
  note m = Category_matching_spec[OF assms(3)]
  let ?rows = "order_by (category_sort_key ''name'') (toLowerCase (dflt ''desc'' (co_order opts)) = ''asc'')
            (group_count (filter (\<lambda>x. where_all (Category_conditions opts) (fst x))
                            (cat_news_join d)))"
  let ?tot = "int (length (Category_matching d opts))"
  let ?l = "\<lparr>items = limit_offset (dflt 10 (co_limit opts))
                      ((dflt 1 (co_page opts) - 1) * dflt 10 (co_limit opts)) ?rows,
             pagination = \<lparr>pg_page = dflt 1 (co_page opts), pg_limit = dflt 10 (co_limit opts),
                            pg_total = ?tot, pg_pages = ceil_div ?tot (dflt 10 (co_limit opts))\<rparr>\<rparr>"
  have o: "Category_ordered d opts = Inr ?rows" by (rule Category_ordered_by_name[OF assms(1)])
  have f: "Category_findAll d opts = Inr ?l"
    by (simp add: Category_findAll_def Let_def o)
  have t: "pg_total (pagination ?l) = int (length (filter (category_filter_spec opts) (categories d)))"
    by (simp add: m)
  have p: "pg_pages (pagination ?l) =
             Fin \<lceil>real_of_int (pg_total (pagination ?l)) / real_of_int (dflt 10 (co_limit opts))\<rceil>"
    using l(2) by (simp add: ceil_div_ceiling)
  have i: "items ?l = take (nat (dflt 10 (co_limit opts)))
               (drop (nat ((dflt 1 (co_page opts) - 1) * dflt 10 (co_limit opts))) ?rows)"
    using l(1) by (simp add: limit_offset_nonneg)
  have n: "int (length (items ?l)) \<le> dflt 10 (co_limit opts)"
    using length_limit_offset[OF assms(2)] by simp
  have "category_row.truncate ` set ?rows =
        fst ` set (filter (\<lambda>x. where_all (Category_conditions opts) (fst x)) (cat_news_join d))"
    by (simp add: order_by_def set_sort_by truncate_group_count)
  also have "\<dots> = {c \<in> fst ` set (cat_news_join d). where_all (Category_conditions opts) c}"
    by force
  also have "\<dots> = {c \<in> set (categories d). category_filter_spec opts c}"
    by (simp add: fst_cat_news_join Category_conditions_spec[OF assms(3)])
  finally have r: "category_row.truncate ` set ?rows =
        {c \<in> set (categories d). category_filter_spec opts c}" .
  from f o t p i n r show ?thesis by blast
qed

lemma total_independent:
  "pg_total (pagination (User_findAll d (uopts\<lparr>uo_page := p, uo_limit := l\<rparr>))) =
     pg_total (pagination (User_findAll d uopts))"
  "pg_total (pagination (News_findAll d (nopts\<lparr>no_page := p, no_limit := l\<rparr>))) =
     pg_total (pagination (News_findAll d nopts))"
  by (simp_all add: User_findAll_def News_findAll_def Let_def
        User_matching_def News_matching_def User_conditions_def News_conditions_def)

lemma listing_examples:
  "pg_total (pagination (User_findAll example_db
      \<lparr>uo_page = Some 2, uo_limit = Some 3, uo_sort = Some ''username'', uo_order = Some ''asc'',
       uo_role = None, uo_is_active = None, uo_search = None\<rparr>)) = 4"
  "pg_pages (pagination (User_findAll example_db
      \<lparr>uo_page = Some 2, uo_limit = Some 3, uo_sort = Some ''username'', uo_order = Some ''asc'',
       uo_role = None, uo_is_active = None, uo_search = None\<rparr>)) = Fin 2"
  "map u_id (items (User_findAll example_db
      \<lparr>uo_page = Some 2, uo_limit = Some 3, uo_sort = Some ''username'', uo_order = Some ''asc'',
       uo_role = None, uo_is_active = None, uo_search = None\<rparr>)) = [1]"
  "pg_total (pagination (User_findAll example_db
      \<lparr>uo_page = None, uo_limit = None, uo_sort = None, uo_order = None,
       uo_role = Some ''user'', uo_is_active = Some True, uo_search = Some ''B''\<rparr>)) = 1"
  "pg_total (pagination (News_findAll example_db
      \<lparr>no_page = Some 1, no_limit = Some 1, no_sort = None, no_order = None, no_status = None,
       no_category_id = None, no_author_id = None, no_search = Some ''post''\<rparr>)) = 2"
  "pg_pages (pagination (News_findAll example_db
      \<lparr>no_page = Some 1, no_limit = Some 1, no_sort = None, no_order = None, no_status = None,
       no_category_id = None, no_author_id = None, no_search = Some ''post''\<rparr>)) = Fin 2"
  "map n_id (items (News_findAll example_db
      \<lparr>no_page = Some 1, no_limit = Some 1, no_sort = None, no_order = None, no_status = None,
       no_category_id = None, no_author_id = None, no_search = Some ''post''\<rparr>)) = [2]"
  "map_sum id (\<lambda>l. (map c_id (items l), map v_news_count (items l),
                     pg_total (pagination l), pg_pages (pagination l)))
     (Category_findAll example_db
        \<lparr>co_page = None, co_limit = None, co_sort = Some ''name'', co_order = Some ''ASC'',
         co_is_active = Some True, co_search = None\<rparr>) = Inr ([2, 1], [0, 1], 2, Fin 1)"
  by code_simp+

text \<open>
  Claim C2: the listing of the categories breaks the pagination contract on its
  default options. On the call without options, and on the options that the
  controller builds for a request without a query (page 1, limit 10, sort
  \<^verbatim>\<open>created_at\<close>, order \<^verbatim>\<open>desc\<close>), the page statement orders by \<^verbatim>\<open>created_at\<close> written
  without a table over the join of the categories with the news, both of which have
  the column: the store refuses the statement and \<^verbatim>\<open>Category.findAll\<close> throws, so it
  returns no total, no pages and no items.
\<close>

theorem category_listing_fails:
  "Category_findAll example_db
      \<lparr>co_page = None, co_limit = None, co_sort = None, co_order = None,
       co_is_active = None, co_search = None\<rparr> = Inl SqliteError \<and>
   Category_findAll example_db
      \<lparr>co_page = Some 1, co_limit = Some 10, co_sort = Some ''created_at'',
       co_order = Some ''desc'', co_is_active = None, co_search = None\<rparr> = Inl SqliteError"
  by (simp add: Category_findAll_ambiguous)

section \<open>The preset listings\<close>

lemma News_items_matching:
  assumes "v \<in> set (items (News_findAll d opts))"
  shows "\<exists>w \<in> set (News_matching d opts). v = w\<lparr>n_content := Undefined\<rparr>"
proof -
  from assms obtain w where
    w: "w \<in> set (limit_offset (dflt 10 (no_limit opts))
                    ((dflt 1 (no_page opts) - 1) * dflt 10 (no_limit opts)) (News_ordered d opts))"
    and v: "v = w\<lparr>n_content := Undefined\<rparr>"
    by (auto simp: News_findAll_def Let_def)
  from w have "w \<in> set (News_ordered d opts)"
    by (rule subsetD[OF set_limit_offset])
  then have "w \<in> set (News_matching d opts)"
    by (simp add: News_ordered_def Let_def order_by_def set_sort_by)
  with v show ?thesis by blast
qed

lemma News_matching_status:
  assumes "w \<in> set (News_matching d opts)" "no_status opts = Some s" "s \<noteq> []"
  shows "n_status w = JStr s"
  using assms
  by (auto simp: News_matching_def News_conditions_def where_all_def when_str_def sql_eq_def)

lemma News_matching_category:
  assumes "w \<in> set (News_matching d opts)" "no_category_id opts = Some k" "k \<noteq> 0"
  shows "n_category_id w = JNum k"
  using assms
  by (auto simp: News_matching_def News_conditions_def where_all_def when_num_def sql_eq_def)

lemma News_matching_author:
  assumes "w \<in> set (News_matching d opts)" "no_author_id opts = Some k" "k \<noteq> 0"
  shows "n_author_id w = JNum k"
  using assms
  by (auto simp: News_matching_def News_conditions_def where_all_def when_num_def sql_eq_def)

lemma findPublished_items:
  assumes "v \<in> set (items (News_findPublished d opts))"
  shows "n_status v = JStr ''published''"
proof -
  from assms News_items_matching obtain w where
    "w \<in> set (News_matching d (opts\<lparr>no_status := Some ''published''\<rparr>))"
    "v = w\<lparr>n_content := Undefined\<rparr>"
    unfolding News_findPublished_def by blast
  then show ?thesis
    using News_matching_status[of w d "opts\<lparr>no_status := Some ''published''\<rparr>" "''published''"]
    by simp
qed

lemma findByCategory_items:
  assumes "v \<in> set (items (News_findByCategory d c opts))" "c \<noteq> 0"
  shows "n_category_id v = JNum c"
proof -
  from assms News_items_matching obtain w where
    "w \<in> set (News_matching d (opts\<lparr>no_category_id := Some c\<rparr>))"
    "v = w\<lparr>n_content := Undefined\<rparr>"
    unfolding News_findByCategory_def by blast
  then show ?thesis
    using News_matching_category[of w d "opts\<lparr>no_category_id := Some c\<rparr>" c] assms(2)
    by simp
qed

lemma findByAuthor_items:
  assumes "v \<in> set (items (News_findByAuthor d a opts))" "a \<noteq> 0"
  shows "n_author_id v = JNum a"
proof -
  from assms News_items_matching obtain w where
    "w \<in> set (News_matching d (opts\<lparr>no_author_id := Some a\<rparr>))"
    "v = w\<lparr>n_content := Undefined\<rparr>"
    unfolding News_findByAuthor_def by blast
  then show ?thesis
    using News_matching_author[of w d "opts\<lparr>no_author_id := Some a\<rparr>" a] assms(2)
    by simp
qed

text \<open>
  Claim C8: the published-only listing is the generic listing on the same options with
  the status set to \<^verbatim>\<open>published\<close>, so a status that the caller supplies has no effect
  and every item has that status; the by-category listing sets \<open>category_id\<close> to the
  given category and the by-author listing sets \<open>author_id\<close> to the given author in the
  same way, and for an id other than 0 every item has it.
\<close>

theorem listing_presets:
  "News_findPublished d opts = News_findAll d (opts\<lparr>no_status := Some ''published''\<rparr>) \<and>
   News_findPublished d (opts\<lparr>no_status := s\<rparr>) = News_findPublished d opts \<and>
   (\<forall>v \<in> set (items (News_findPublished d opts)). n_status v = JStr ''published'') \<and>
   News_findByCategory d c opts = News_findAll d (opts\<lparr>no_category_id := Some c\<rparr>) \<and>
   News_findByCategory d c (opts\<lparr>no_category_id := k\<rparr>) = News_findByCategory d c opts \<and>
   (c \<noteq> 0 \<longrightarrow> (\<forall>v \<in> set (items (News_findByCategory d c opts)). n_category_id v = JNum c)) \<and>
   News_findByAuthor d a opts = News_findAll d (opts\<lparr>no_author_id := Some a\<rparr>) \<and>
   News_findByAuthor d a (opts\<lparr>no_author_id := k\<rparr>) = News_findByAuthor d a opts \<and>
   (a \<noteq> 0 \<longrightarrow> (\<forall>v \<in> set (items (News_findByAuthor d a opts)). n_author_id v = JNum a))"
  using findPublished_items[of _ d opts] findByCategory_items[of _ d c opts]
    findByAuthor_items[of _ d a opts]
  by (simp add: News_findPublished_def News_findByCategory_def News_findByAuthor_def)

theorem listing_presets_witness:
  "News_findPublished example_db
      \<lparr>no_page = None, no_limit = None, no_sort = None, no_order = None,
       no_status = Some ''draft'', no_category_id = None, no_author_id = None, no_search = None\<rparr> =
   News_findAll example_db
      \<lparr>no_page = None, no_limit = None, no_sort = None, no_order = None,
       no_status = Some ''published'', no_category_id = None, no_author_id = None, no_search = None\<rparr> \<and>
   map n_id (items (News_findPublished example_db
      \<lparr>no_page = None, no_limit = None, no_sort = None, no_order = None,
       no_status = Some ''draft'', no_category_id = None, no_author_id = None, no_search = None\<rparr>)) = [2] \<and>
   map n_id (items (News_findByCategory example_db 1
      \<lparr>no_page = None, no_limit = None, no_sort = None, no_order = None,
       no_status = None, no_category_id = Some 2, no_author_id = None, no_search = None\<rparr>)) = [1] \<and>
   map n_id (items (News_findByAuthor example_db 4
      \<lparr>no_page = None, no_limit = None, no_sort = None, no_order = None,
       no_status = None, no_category_id = None, no_author_id = Some 3, no_search = None\<rparr>)) = [2]"
proof -
  let ?o = "\<lparr>no_page = None, no_limit = None, no_sort = None, no_order = None,
       no_status = Some ''draft'', no_category_id = None, no_author_id = None, no_search = None\<rparr>"
  have a: "News_findPublished example_db ?o = News_findAll example_db (?o\<lparr>no_status := Some ''published''\<rparr>)"
    using listing_presets[where d = example_db and opts = ?o] by blast
  have b: "map n_id (items (News_findAll example_db (?o\<lparr>no_status := Some ''published''\<rparr>))) = [2]"
    by code_simp
  have c: "map n_id (items (News_findByCategory example_db 1
      \<lparr>no_page = None, no_limit = None, no_sort = None, no_order = None,
       no_status = None, no_category_id = Some 2, no_author_id = None, no_search = None\<rparr>)) = [1]"
    by code_simp
  have e: "map n_id (items (News_findByAuthor example_db 4
      \<lparr>no_page = None, no_limit = None, no_sort = None, no_order = None,
       no_status = None, no_category_id = None, no_author_id = Some 3, no_search = None\<rparr>)) = [2]"
    by code_simp
  from a b c e show ?thesis by simp
qed

end
